theory Spec2Isabelle
  imports Main
begin

section \<open>The syntax tree\<close>

text \<open>
  The blank line calculator of \<^verbatim>\<open>yapf/pytree/blank_line_calculator.py\<close> walks a lib2to3
  syntax tree.  A tree is either a leaf (a token with its type, line and column) or an
  inner node (a grammar symbol name with its children).  Only the two token types the
  calculator compares against are distinguished; every other token type is
  \<open>OTHER_TOKEN\<close> with its number.
\<close>

datatype token = COMMENT | ASYNC | OTHER_TOKEN nat

datatype pytree = Leaf token int int | Node string "pytree list"

text \<open>
  Python compares nodes by identity (\<^verbatim>\<open>prev_cls is curr_cls\<close>) and attaches annotations
  to node objects.  A node is therefore identified by its position in the tree: the list
  of child indices leading to it, innermost index first, so that the parent of
  \<open>i # p\<close> is \<open>p\<close> and the root is \<open>[]\<close>.
\<close>

type_synonym path = "nat list"

datatype error = IndexError | AttributeError

fun children :: "pytree \<Rightarrow> pytree list" where
  "children (Leaf t l c) = []"
| "children (Node n cs) = cs"

text \<open>Only leaves carry \<^verbatim>\<open>lineno\<close> and \<^verbatim>\<open>column\<close>; reading them from an inner node raises.\<close>

fun lineno :: "pytree \<Rightarrow> error + int" where
  "lineno (Leaf t l c) = Inr l"
| "lineno (Node n cs) = Inl AttributeError"

fun column :: "pytree \<Rightarrow> error + int" where
  "column (Leaf t l c) = Inr c"
| "column (Node n cs) = Inl AttributeError"

fun get_node :: "pytree \<Rightarrow> path \<Rightarrow> pytree option" where
  "get_node root [] = Some root"
| "get_node root (i # p) =
     (case get_node root p of
        None \<Rightarrow> None
      | Some n \<Rightarrow> if i < length (children n) then Some (children n ! i) else None)"

fun parent :: "path \<Rightarrow> path option" where
  "parent [] = None"
| "parent (i # p) = Some p"

fun prev_sibling :: "pytree \<Rightarrow> path \<Rightarrow> pytree option" where
  "prev_sibling root [] = None"
| "prev_sibling root (i # p) = (if i = 0 then None else get_node root ((i - 1) # p))"

section \<open>Helpers of \<^verbatim>\<open>pytree_utils\<close>\<close>

text \<open>
  Modelled from the spec: \<^verbatim>\<open>pytree_utils.NodeName\<close> is not among the sources.  It gives
  the kind of a node as a string: the grammar symbol of an inner node, the token name of
  a leaf.  Token names are upper case and never coincide with a grammar symbol.
\<close>

fun NodeName :: "pytree \<Rightarrow> string" where
  "NodeName (Leaf COMMENT l c) = ''COMMENT''"
| "NodeName (Leaf ASYNC l c) = ''ASYNC''"
| "NodeName (Leaf (OTHER_TOKEN k) l c) = ''TOKEN''"
| "NodeName (Node n cs) = n"

text \<open>
  Modelled from the spec: \<^verbatim>\<open>pytree_utils.FirstLeafNode\<close> is not among the sources (the
  spec's "first leaf" of a node, its first token).  It descends through first children;
  an inner node without children makes \<^verbatim>\<open>children[0]\<close> raise.
\<close>

fun FirstLeafNode :: "path \<Rightarrow> pytree \<Rightarrow> error + (path \<times> pytree)" where
  "FirstLeafNode p (Leaf t l c) = Inr (p, Leaf t l c)"
| "FirstLeafNode p (Node n []) = Inl IndexError"
| "FirstLeafNode p (Node n (c # cs)) = FirstLeafNode (0 # p) c"

text \<open>
  Modelled from the spec: \<^verbatim>\<open>pytree_utils.IsCommentStatement\<close> is not among the sources.
  A standalone comment is wrapped in a \<^verbatim>\<open>simple_stmt\<close> node whose first child is the
  comment token (see the comment in \<^verbatim>\<open>_SetBlankLinesBetweenCommentAndClassFunc\<close>).
\<close>

fun IsCommentStatement :: "pytree \<Rightarrow> error + bool" where
  "IsCommentStatement (Leaf t l c) = Inr False"
| "IsCommentStatement (Node n cs) =
     (if n = ''simple_stmt''
      then (case cs of
              [] \<Rightarrow> Inl IndexError
            | Leaf COMMENT l c # rest \<Rightarrow> Inr True
            | other # rest \<Rightarrow> Inr False)
      else Inr False)"

definition is_kind :: "pytree \<Rightarrow> path \<Rightarrow> string list \<Rightarrow> bool" where
  "is_kind root p kinds =
     (case get_node root p of None \<Rightarrow> False | Some n \<Rightarrow> NodeName n \<in> set kinds)"

text \<open>
  Modelled from the spec: \<^verbatim>\<open>pytree_utils.EnclosingFunc\<close>, \<^verbatim>\<open>IsFuncDef\<close> and
  \<^verbatim>\<open>EnclosingClass\<close> are not among the sources.  Following the spec's tie-break rule
  ("a node qualifies only if its nearest enclosing block is itself a function
  definition"), \<open>EnclosingFunc\<close> walks the parent links from the node itself up to the
  nearest class or function definition, \<open>IsFuncDef\<close> tells whether that block is a
  function definition, and \<open>EnclosingClass\<close> walks up to the nearest class definition.
\<close>

fun EnclosingFunc :: "pytree \<Rightarrow> path \<Rightarrow> path option" where
  "EnclosingFunc root [] =
     (if is_kind root [] [''funcdef'', ''classdef''] then Some [] else None)"
| "EnclosingFunc root (i # p) =
     (if is_kind root (i # p) [''funcdef'', ''classdef''] then Some (i # p)
      else EnclosingFunc root p)"

definition IsFuncDef :: "pytree \<Rightarrow> path option \<Rightarrow> bool" where
  "IsFuncDef root po = (case po of None \<Rightarrow> False | Some p \<Rightarrow> is_kind root p [''funcdef''])"

fun EnclosingClass_from :: "pytree \<Rightarrow> path \<Rightarrow> path option" where
  "EnclosingClass_from root [] = (if is_kind root [] [''classdef''] then Some [] else None)"
| "EnclosingClass_from root (i # p) =
     (if is_kind root (i # p) [''classdef''] then Some (i # p)
      else EnclosingClass_from root p)"

definition EnclosingClass :: "pytree \<Rightarrow> path option \<Rightarrow> path option" where
  "EnclosingClass root po = (case po of None \<Rightarrow> None | Some p \<Rightarrow> EnclosingClass_from root p)"

text \<open>
  Modelled from the spec: \<^verbatim>\<open>pytree_utils.DecoratedTarget\<close> is not among the sources.  The
  spec only says that a decorator has one decorated target reachable through the parent
  links: the definition that closes the nearest enclosing \<^verbatim>\<open>decorated\<close> node.  The
  target is returned when its kind is one of the requested kinds, \<open>None\<close> otherwise.
\<close>

fun enclosing_decorated :: "pytree \<Rightarrow> path \<Rightarrow> path option" where
  "enclosing_decorated root [] = None"
| "enclosing_decorated root (i # p) =
     (if is_kind root p [''decorated''] then Some p else enclosing_decorated root p)"

definition DecoratedTarget :: "pytree \<Rightarrow> path \<Rightarrow> string list \<Rightarrow> path option" where
  "DecoratedTarget root p kinds =
     (case enclosing_decorated root p of
        None \<Rightarrow> None
      | Some d \<Rightarrow>
          (case get_node root d of
             None \<Rightarrow> None
           | Some dn \<Rightarrow>
               if children dn = [] then None
               else let t = (length (children dn) - 1) # d
                    in if is_kind root t kinds then Some t else None))"

section \<open>The calculator\<close>

definition NO_BLANK_LINES :: int where "NO_BLANK_LINES = 1"
definition ONE_BLANK_LINE :: int where "ONE_BLANK_LINE = 2"
definition TWO_BLANK_LINES :: int where "TWO_BLANK_LINES = 3"

definition PYTHON_STATEMENTS :: "string list" where
  "PYTHON_STATEMENTS =
     [''small_stmt'', ''expr_stmt'', ''print_stmt'', ''del_stmt'', ''pass_stmt'',
      ''break_stmt'', ''continue_stmt'', ''return_stmt'', ''raise_stmt'', ''yield_stmt'',
      ''import_stmt'', ''global_stmt'', ''exec_stmt'', ''assert_stmt'', ''if_stmt'',
      ''while_stmt'', ''for_stmt'', ''try_stmt'', ''with_stmt'', ''nonlocal_stmt'',
      ''async_stmt'', ''simple_stmt'']"

text \<open>The two options the calculator reads through \<^verbatim>\<open>style.Get\<close>.\<close>

record style =
  BLANK_LINES_AROUND_TOP_LEVEL_DEFINITION :: int
  BLANK_LINES_BETWEEN_CLASS_DEFS :: int

text \<open>
  The fields of \<^verbatim>\<open>_BlankLineCalculator\<close>, together with the two effects of a walk on the
  world outside the visitor object: \<open>newlines\<close> is the store of the \<^verbatim>\<open>newlines\<close>
  annotations of the tree, an association list with the most recent write first (a
  value \<open>None\<close> is Python's \<^verbatim>\<open>None\<close>), and \<open>visited\<close> is the trace of the calls of
  \<^verbatim>\<open>Visit\<close>, most recent first.
\<close>

record state =
  class_level :: int
  function_level :: int
  last_comment_lineno :: int
  last_was_decorator :: bool
  last_was_class_or_function :: bool
  prev_stmt :: "path option"
  newlines :: "(path \<times> int option) list"
  visited :: "path list"

definition init :: "(path \<times> int option) list \<Rightarrow> state" where
  "init annots =
     \<lparr>class_level = 0, function_level = 0, last_comment_lineno = 0,
      last_was_decorator = False, last_was_class_or_function = False,
      prev_stmt = None, newlines = annots, visited = []\<rparr>"

text \<open>Reading an annotation: absent and \<^verbatim>\<open>None\<close> are the same to a reader of the tree.\<close>

definition annotation :: "(path \<times> int option) list \<Rightarrow> path \<Rightarrow> int option" where
  "annotation store p = (case map_of store p of None \<Rightarrow> None | Some v \<Rightarrow> v)"

definition SetNumNewlines :: "path \<Rightarrow> int option \<Rightarrow> state \<Rightarrow> state" where
  "SetNumNewlines p num_newlines s = s\<lparr>newlines := (p, num_newlines) # newlines s\<rparr>"

definition AsyncFunction :: "pytree \<Rightarrow> path \<Rightarrow> bool" where
  "AsyncFunction root p =
     (case prev_sibling root p of Some (Leaf ASYNC l c) \<Rightarrow> True | _ \<Rightarrow> False)"

definition StartsInZerothColumn :: "pytree \<Rightarrow> path \<Rightarrow> pytree \<Rightarrow> error + bool" where
  "StartsInZerothColumn root p node =
     (case FirstLeafNode p node of
        Inl e \<Rightarrow> Inl e
      | Inr (lp, leaf) \<Rightarrow>
          (case column leaf of
             Inl e \<Rightarrow> Inl e
           | Inr c \<Rightarrow>
               Inr (c = 0 \<or>
                    (case prev_sibling root p of
                       Some (Leaf ASYNC l ac) \<Rightarrow> ac = 0
                     | _ \<Rightarrow> False))))"

definition IsTopLevel :: "pytree \<Rightarrow> state \<Rightarrow> path \<Rightarrow> pytree \<Rightarrow> error + bool" where
  "IsTopLevel root s p node =
     (if class_level s \<noteq> 0 \<or> function_level s \<noteq> 0 then Inr False
      else StartsInZerothColumn root p node)"

definition MethodsInSameClass :: "pytree \<Rightarrow> path \<Rightarrow> path \<Rightarrow> bool" where
  "MethodsInSameClass root prev_node curr_node =
     (let prev_func = EnclosingFunc root prev_node;
          curr_func = EnclosingFunc root curr_node
      in if \<not> (IsFuncDef root prev_func \<and> IsFuncDef root curr_func) then False
         else let prev_cls = EnclosingClass root (Option.bind prev_func parent);
                  curr_cls = EnclosingClass root (Option.bind curr_func parent)
              in prev_cls \<noteq> None \<and> prev_cls = curr_cls)"

text \<open>
  The call of \<^verbatim>\<open>_MethodsInSameClass\<close> as Python makes it, with arguments that may be
  \<^verbatim>\<open>None\<close>.  Modelled from the spec: the helpers of \<^verbatim>\<open>pytree_utils\<close>, not among the
  sources, walk the parent links of a node; \<^verbatim>\<open>None\<close> is no node and has no such link, so
  \<^verbatim>\<open>EnclosingFunc\<close>, the first helper called, raises on it.  The callers test both
  arguments against \<^verbatim>\<open>None\<close> before the call.
\<close>

definition MethodsInSameClass_opt :: "pytree \<Rightarrow> path option \<Rightarrow> path option \<Rightarrow> error + bool" where
  "MethodsInSameClass_opt root prev_node curr_node =
     (case prev_node of
        None \<Rightarrow> Inl AttributeError
      | Some prev \<Rightarrow>
          (case curr_node of
             None \<Rightarrow> Inl AttributeError
           | Some cur \<Rightarrow> Inr (MethodsInSameClass root prev cur)))"

definition DecoratedFuncdef :: "pytree \<Rightarrow> path \<Rightarrow> path option" where
  "DecoratedFuncdef root p = DecoratedTarget root p [''funcdef'']"

definition GetNumNewlines :: "style \<Rightarrow> pytree \<Rightarrow> state \<Rightarrow> path \<Rightarrow> pytree \<Rightarrow> error + int" where
  "GetNumNewlines st root s p node =
     (if last_was_decorator s then Inr NO_BLANK_LINES
      else (case IsTopLevel root s p node of
              Inl e \<Rightarrow> Inl e
            | Inr True \<Rightarrow> Inr (1 + BLANK_LINES_AROUND_TOP_LEVEL_DEFINITION st)
            | Inr False \<Rightarrow>
                (case (if prev_stmt s \<noteq> None
                       then MethodsInSameClass_opt root (prev_stmt s) (Some p)
                       else Inr False) of
                   Inl e \<Rightarrow> Inl e
                 | Inr True \<Rightarrow> Inr (max ONE_BLANK_LINE (1 + BLANK_LINES_BETWEEN_CLASS_DEFS st))
                 | Inr False \<Rightarrow> Inr NO_BLANK_LINES)))"

text \<open>
  \<^verbatim>\<open>Visit\<close> on a leaf: the visitor has no method for any token name, so the call ends in
  \<^verbatim>\<open>DefaultLeafVisit\<close>, which does nothing.  Only the trace records it.
\<close>

definition Visit_leaf :: "path \<Rightarrow> state \<Rightarrow> state" where
  "Visit_leaf p s = s\<lparr>visited := p # visited s\<rparr>"

text \<open>
  The \<^verbatim>\<open>while\<close> loop of \<^verbatim>\<open>_SetBlankLinesBetweenCommentAndClassFunc\<close>, over the children
  from \<open>index\<close> on.  The child it visits is the comment token of a comment statement, a
  leaf.  Running past the last child makes \<^verbatim>\<open>node.children[index]\<close> raise.
\<close>

fun leading_comments :: "path \<Rightarrow> nat \<Rightarrow> pytree list \<Rightarrow> state \<Rightarrow> error + (state \<times> nat)" where
  "leading_comments p index [] s = Inl IndexError"
| "leading_comments p index (c # cs) s =
     (case IsCommentStatement c of
        Inl e \<Rightarrow> Inl e
      | Inr False \<Rightarrow> Inr (s, index)
      | Inr True \<Rightarrow>
          (let s1 = Visit_leaf (0 # index # p) s;
               s2 = (if \<not> last_was_decorator s1
                     then SetNumNewlines (0 # index # p) (Some ONE_BLANK_LINE) s1
                     else s1)
           in leading_comments p (Suc index) cs s2))"

definition first_child_lineno :: "pytree \<Rightarrow> error + int" where
  "first_child_lineno n = (case children n of [] \<Rightarrow> Inl IndexError | c # rest \<Rightarrow> lineno c)"

definition SetBlankLinesBetweenCommentAndClassFunc ::
  "style \<Rightarrow> pytree \<Rightarrow> path \<Rightarrow> pytree \<Rightarrow> state \<Rightarrow> error + (state \<times> nat)" where
  "SetBlankLinesBetweenCommentAndClassFunc st root p node s =
     (case leading_comments p 0 (children node) s of
        Inl e \<Rightarrow> Inl e
      | Inr (s1, index) \<Rightarrow>
          (case drop index (children node) of
             [] \<Rightarrow> Inl IndexError
           | c # rest \<Rightarrow>
               (case lineno c of
                  Inl e \<Rightarrow> Inl e
                | Inr l \<Rightarrow>
                    (case (if index = 0 then Inr False
                           else (case first_child_lineno (children node ! (index - 1)) of
                                   Inl e \<Rightarrow> Inl e
                                 | Inr cl \<Rightarrow> Inr (l - 1 = cl))) of
                       Inl e \<Rightarrow> Inl e
                     | Inr True \<Rightarrow>
                         Inr (SetNumNewlines (index # p) (Some NO_BLANK_LINES) s1, index)
                     | Inr False \<Rightarrow>
                         (case (if last_comment_lineno s1 + 1 = l then Inr NO_BLANK_LINES
                                else GetNumNewlines st root s1 p node) of
                            Inl e \<Rightarrow> Inl e
                          | Inr num_newlines \<Rightarrow>
                              Inr (SetNumNewlines (index # p) (Some num_newlines) s1,
                                   index))))))"

text \<open>
  Each visit method has the same shape: some work on the node, a loop that visits the
  children from some index on, and some work afterwards.  The work before the loop
  returns the state and the index the loop starts from.
\<close>

text \<open>\<^verbatim>\<open>DefaultNodeVisit\<close>, up to the call of the inherited method that loops over the children.\<close>

definition DefaultNodeVisit_pre ::
  "style \<Rightarrow> pytree \<Rightarrow> path \<Rightarrow> pytree \<Rightarrow> state \<Rightarrow> error + (state \<times> nat)" where
  "DefaultNodeVisit_pre st root p node s =
     (if last_was_class_or_function s \<and> NodeName node \<in> set PYTHON_STATEMENTS
      then (case FirstLeafNode p node of
              Inl e \<Rightarrow> Inl e
            | Inr (lp, leaf) \<Rightarrow>
                (case GetNumNewlines st root s lp leaf of
                   Inl e \<Rightarrow> Inl e
                 | Inr num_newlines \<Rightarrow>
                     Inr ((SetNumNewlines lp (Some num_newlines) s)
                            \<lparr>last_was_class_or_function := False\<rparr>, 0)))
      else Inr (s\<lparr>last_was_class_or_function := False\<rparr>, 0))"

text \<open>\<^verbatim>\<open>Visit_simple_stmt\<close> after \<^verbatim>\<open>DefaultNodeVisit\<close> has returned.\<close>

definition Visit_simple_stmt_post :: "path \<Rightarrow> pytree \<Rightarrow> state \<Rightarrow> error + state" where
  "Visit_simple_stmt_post p node s =
     (case children node of
        [] \<Rightarrow> Inl IndexError
      | Leaf COMMENT l c # rest \<Rightarrow> Inr (s\<lparr>last_comment_lineno := l\<rparr>)
      | other # rest \<Rightarrow> Inr (s\<lparr>prev_stmt := Some p\<rparr>))"

text \<open>\<^verbatim>\<open>Visit_decorator\<close> up to its loop over the children.\<close>

definition Visit_decorator_pre ::
  "style \<Rightarrow> pytree \<Rightarrow> path \<Rightarrow> pytree \<Rightarrow> state \<Rightarrow> error + (state \<times> nat)" where
  "Visit_decorator_pre st root p node s =
     (let func = DecoratedFuncdef root p
      in case children node of
           [] \<Rightarrow> Inl IndexError
         | c # rest \<Rightarrow>
             (case (if last_comment_lineno s \<noteq> 0
                    then (case lineno c of
                            Inl e \<Rightarrow> Inl e
                          | Inr l \<Rightarrow> Inr (last_comment_lineno s = l - 1))
                    else Inr False) of
                Inl e \<Rightarrow> Inl e
              | Inr True \<Rightarrow> Inr (SetNumNewlines (0 # p) (Some NO_BLANK_LINES) s, 0)
              | Inr False \<Rightarrow>
                  if last_was_decorator s
                  then Inr (SetNumNewlines (0 # p) (Some NO_BLANK_LINES) s, 0)
                  else (case (if func \<noteq> None \<and> prev_stmt s \<noteq> None
                              then MethodsInSameClass_opt root (prev_stmt s) func
                              else Inr False) of
                          Inl e \<Rightarrow> Inl e
                        | Inr True \<Rightarrow>
                            Inr (SetNumNewlines (0 # p)
                                   (Some (max ONE_BLANK_LINE
                                            (1 + BLANK_LINES_BETWEEN_CLASS_DEFS st)))
                                   s, 0)
                        | Inr False \<Rightarrow>
                            (case GetNumNewlines st root s p node of
                               Inl e \<Rightarrow> Inl e
                             | Inr num_newlines \<Rightarrow>
                                 Inr (SetNumNewlines (0 # p) (Some num_newlines) s, 0)))))"

definition Visit_decorator_post :: "state \<Rightarrow> error + state" where
  "Visit_decorator_post s = Inr (s\<lparr>last_was_decorator := True\<rparr>)"

text \<open>\<^verbatim>\<open>Visit_classdef\<close> up to its loop over \<^verbatim>\<open>node.children[index:]\<close>, and after it.\<close>

definition Visit_classdef_pre ::
  "style \<Rightarrow> pytree \<Rightarrow> path \<Rightarrow> pytree \<Rightarrow> state \<Rightarrow> error + (state \<times> nat)" where
  "Visit_classdef_pre st root p node s =
     (case SetBlankLinesBetweenCommentAndClassFunc st root p node
             (s\<lparr>last_was_class_or_function := False\<rparr>) of
        Inl e \<Rightarrow> Inl e
      | Inr (s1, index) \<Rightarrow>
          Inr (s1\<lparr>last_was_decorator := False, class_level := class_level s1 + 1\<rparr>, index))"

definition Visit_classdef_post :: "path \<Rightarrow> state \<Rightarrow> error + state" where
  "Visit_classdef_post p s =
     Inr (s\<lparr>class_level := class_level s - 1, last_was_class_or_function := True,
            prev_stmt := Some p\<rparr>)"

text \<open>
  \<^verbatim>\<open>Visit_funcdef\<close> up to its loop over \<^verbatim>\<open>node.children[index:]\<close>, and after it.  The
  placement routine runs on the node first, whatever the node is; then, for an
  \<^verbatim>\<open>async\<close> function, on the parent of the \<^verbatim>\<open>async\<close> keyword, after which the annotation
  of \<^verbatim>\<open>node.children[0]\<close> is set to \<^verbatim>\<open>None\<close>; otherwise on the node once more.
\<close>

definition Visit_funcdef_pre ::
  "style \<Rightarrow> pytree \<Rightarrow> path \<Rightarrow> pytree \<Rightarrow> state \<Rightarrow> error + (state \<times> nat)" where
  "Visit_funcdef_pre st root p node s =
     (case SetBlankLinesBetweenCommentAndClassFunc st root p node
             (s\<lparr>last_was_class_or_function := False\<rparr>) of
        Inl e \<Rightarrow> Inl e
      | Inr (s1, index0) \<Rightarrow>
          (case (if AsyncFunction root p
                 then (case get_node root (tl p) of
                         None \<Rightarrow> Inl AttributeError
                       | Some par \<Rightarrow>
                           (case SetBlankLinesBetweenCommentAndClassFunc st root (tl p) par s1 of
                              Inl e \<Rightarrow> Inl e
                            | Inr (s2, index) \<Rightarrow>
                                (case children node of
                                   [] \<Rightarrow> Inl IndexError
                                 | c # rest \<Rightarrow> Inr (SetNumNewlines (0 # p) None s2, index))))
                 else SetBlankLinesBetweenCommentAndClassFunc st root p node s1) of
             Inl e \<Rightarrow> Inl e
           | Inr (s3, index) \<Rightarrow>
               Inr (s3\<lparr>last_was_decorator := False, function_level := function_level s3 + 1\<rparr>,
                    index)))"

definition Visit_funcdef_post :: "path \<Rightarrow> state \<Rightarrow> error + state" where
  "Visit_funcdef_post p s =
     Inr (s\<lparr>function_level := function_level s - 1, last_was_class_or_function := True,
            prev_stmt := Some p\<rparr>)"

text \<open>
  The dispatch of \<^verbatim>\<open>PyTreeVisitor.Visit\<close> on the name of an inner node: the method
  \<^verbatim>\<open>Visit_<name>\<close> when the calculator has one, \<^verbatim>\<open>DefaultNodeVisit\<close> otherwise.
\<close>

definition Visit_pre ::
  "style \<Rightarrow> pytree \<Rightarrow> path \<Rightarrow> pytree \<Rightarrow> state \<Rightarrow> error + (state \<times> nat)" where
  "Visit_pre st root p node s =
     (if NodeName node = ''simple_stmt'' then DefaultNodeVisit_pre st root p node s
      else if NodeName node = ''decorator'' then Visit_decorator_pre st root p node s
      else if NodeName node = ''classdef'' then Visit_classdef_pre st root p node s
      else if NodeName node = ''funcdef'' then Visit_funcdef_pre st root p node s
      else DefaultNodeVisit_pre st root p node s)"

definition Visit_post :: "path \<Rightarrow> pytree \<Rightarrow> state \<Rightarrow> error + state" where
  "Visit_post p node s =
     (if NodeName node = ''simple_stmt'' then Visit_simple_stmt_post p node s
      else if NodeName node = ''decorator'' then Visit_decorator_post s
      else if NodeName node = ''classdef'' then Visit_classdef_post p s
      else if NodeName node = ''funcdef'' then Visit_funcdef_post p s
      else Inr s)"

function Visit :: "style \<Rightarrow> pytree \<Rightarrow> path \<Rightarrow> pytree \<Rightarrow> state \<Rightarrow> error + state"
  and VisitChildren ::
    "style \<Rightarrow> pytree \<Rightarrow> path \<Rightarrow> nat \<Rightarrow> pytree list \<Rightarrow> state \<Rightarrow> error + state" where
  "Visit st root p (Leaf t l c) s = Inr (Visit_leaf p s)"
| "Visit st root p (Node n cs) s =
     (case Visit_pre st root p (Node n cs) (s\<lparr>visited := p # visited s\<rparr>) of
        Inl e \<Rightarrow> Inl e
      | Inr (s1, index) \<Rightarrow>
          (case VisitChildren st root p index (drop index cs) s1 of
             Inl e \<Rightarrow> Inl e
           | Inr s2 \<Rightarrow> Visit_post p (Node n cs) s2))"
| "VisitChildren st root p i [] s = Inr s"
| "VisitChildren st root p i (c # cs) s =
     (case Visit st root (i # p) c s of
        Inl e \<Rightarrow> Inl e
      | Inr s1 \<Rightarrow> VisitChildren st root p (Suc i) cs s1)"
  by pat_completeness auto
termination
proof (relation "measure (\<lambda>x. case x of
          Inl (st, root, p, node, s) \<Rightarrow> size node
        | Inr (st, root, p, i, cs, s) \<Rightarrow> size_list size cs)", goal_cases)
  case 1
  show ?case by simp
next
  case (2 st root p n cs s x xa y)
  have "size_list size (drop k xs) \<le> size_list size xs" for k and xs :: "pytree list"
  proof (induction xs arbitrary: k)
    case Nil
    show ?case by simp
  next
    case (Cons x xs)
    show ?case
    proof (cases k)
      case 0
      then show ?thesis by simp
    next
      case (Suc j)
      have "size_list size (drop j xs) \<le> size_list size xs" by (rule Cons.IH)
      with Suc show ?thesis by simp
    qed
  qed
  from this [of y cs] show ?case by simp
next
  case (3 st root p i c cs s)
  show ?case by simp
next
  case (4 st root p i c cs s x2)
  show ?case by simp
qed

text \<open>
  \<^verbatim>\<open>CalculateBlankLines\<close>: a fresh calculator visits the tree from its root.  \<open>walk\<close> gives
  the final state of the calculator, \<open>CalculateBlankLines\<close> the annotations of the tree,
  which is all that remains once the calculator is dropped.
\<close>

definition walk :: "style \<Rightarrow> pytree \<Rightarrow> (path \<times> int option) list \<Rightarrow> error + state" where
  "walk st tree annots = Visit st tree [] tree (init annots)"

definition CalculateBlankLines ::
  "style \<Rightarrow> pytree \<Rightarrow> (path \<times> int option) list \<Rightarrow> error + (path \<times> int option) list" where
  "CalculateBlankLines st tree annots =
     (case walk st tree annots of Inl e \<Rightarrow> Inl e | Inr s \<Rightarrow> Inr (newlines s))"

text \<open>The annotation a reader finds on a node after the run; nothing when the run raised.\<close>

definition result_annotation :: "error + (path \<times> int option) list \<Rightarrow> path \<Rightarrow> int option" where
  "result_annotation r p = (case r of Inl e \<Rightarrow> None | Inr store \<Rightarrow> annotation store p)"

text \<open>The trace of a run; empty when the run raised.\<close>

definition visits :: "error + state \<Rightarrow> path list" where
  "visits r = (case r of Inl e \<Rightarrow> [] | Inr s \<Rightarrow> visited s)"

section \<open>Sample trees\<close>

text \<open>
  Keywords and identifiers are \<open>NAME\<close> tokens (number 1); the other token numbers used
  below are those of the punctuation: 0 end marker, 4 newline, 5 indent, 6 dedent,
  7 and 8 parentheses, 11 colon, 50 at-sign.
\<close>

abbreviation NAME :: token where "NAME \<equiv> OTHER_TOKEN 1"

definition default_style :: style where
  "default_style =
     \<lparr>BLANK_LINES_AROUND_TOP_LEVEL_DEFINITION = 2, BLANK_LINES_BETWEEN_CLASS_DEFS = 1\<rparr>"

text \<open>
  \<^verbatim>\<open>def f(): pass\<close> on lines 1 and 2, \<^verbatim>\<open>def g(): pass\<close> on lines 3 and 4, both at column 0.
\<close>

definition two_functions :: pytree where
  "two_functions = Node ''file_input''
     [Node ''funcdef''
        [Leaf NAME 1 0, Leaf NAME 1 4,
         Node ''parameters'' [Leaf (OTHER_TOKEN 7) 1 5, Leaf (OTHER_TOKEN 8) 1 6],
         Leaf (OTHER_TOKEN 11) 1 7,
         Node ''suite''
           [Leaf (OTHER_TOKEN 4) 1 8, Leaf (OTHER_TOKEN 5) 2 0,
            Node ''simple_stmt'' [Node ''pass_stmt'' [Leaf NAME 2 2], Leaf (OTHER_TOKEN 4) 2 6],
            Leaf (OTHER_TOKEN 6) 3 0]],
      Node ''funcdef''
        [Leaf NAME 3 0, Leaf NAME 3 4,
         Node ''parameters'' [Leaf (OTHER_TOKEN 7) 3 5, Leaf (OTHER_TOKEN 8) 3 6],
         Leaf (OTHER_TOKEN 11) 3 7,
         Node ''suite''
           [Leaf (OTHER_TOKEN 4) 3 8, Leaf (OTHER_TOKEN 5) 4 0,
            Node ''simple_stmt'' [Node ''pass_stmt'' [Leaf NAME 4 2], Leaf (OTHER_TOKEN 4) 4 6],
            Leaf (OTHER_TOKEN 6) 5 0]],
      Leaf (OTHER_TOKEN 0) 5 0]"

text \<open>A class on line 1 whose body holds two methods, on lines 2 and 4.\<close>

definition two_methods :: pytree where
  "two_methods = Node ''file_input''
     [Node ''classdef''
        [Leaf NAME 1 0, Leaf NAME 1 6, Leaf (OTHER_TOKEN 11) 1 7,
         Node ''suite''
           [Leaf (OTHER_TOKEN 4) 1 8, Leaf (OTHER_TOKEN 5) 2 0,
            Node ''funcdef''
              [Leaf NAME 2 2, Leaf NAME 2 6,
               Node ''parameters'' [Leaf (OTHER_TOKEN 7) 2 7, Leaf (OTHER_TOKEN 8) 2 8],
               Leaf (OTHER_TOKEN 11) 2 9,
               Node ''suite''
                 [Leaf (OTHER_TOKEN 4) 2 10, Leaf (OTHER_TOKEN 5) 3 0,
                  Node ''simple_stmt''
                    [Node ''pass_stmt'' [Leaf NAME 3 4], Leaf (OTHER_TOKEN 4) 3 8],
                  Leaf (OTHER_TOKEN 6) 4 0]],
            Node ''funcdef''
              [Leaf NAME 4 2, Leaf NAME 4 6,
               Node ''parameters'' [Leaf (OTHER_TOKEN 7) 4 7, Leaf (OTHER_TOKEN 8) 4 8],
               Leaf (OTHER_TOKEN 11) 4 9,
               Node ''suite''
                 [Leaf (OTHER_TOKEN 4) 4 10, Leaf (OTHER_TOKEN 5) 5 0,
                  Node ''simple_stmt''
                    [Node ''pass_stmt'' [Leaf NAME 5 4], Leaf (OTHER_TOKEN 4) 5 8],
                  Leaf (OTHER_TOKEN 6) 6 0]],
            Leaf (OTHER_TOKEN 6) 6 0]],
      Leaf (OTHER_TOKEN 0) 6 0]"

text \<open>The calculator inside the class body of \<open>two_methods\<close>, the first method just left.\<close>

definition in_class :: state where
  "in_class = (init [])\<lparr>class_level := 1, prev_stmt := Some [2, 3, 0]\<rparr>"

text \<open>An assignment on line 1, then a function on line 4 with its leading comment on line 3.\<close>

definition commented_function :: pytree where
  "commented_function = Node ''file_input''
     [Node ''simple_stmt''
        [Node ''expr_stmt'' [Leaf NAME 1 0, Leaf (OTHER_TOKEN 22) 1 2, Leaf (OTHER_TOKEN 2) 1 4],
         Leaf (OTHER_TOKEN 4) 1 5],
      Node ''funcdef''
        [Node ''simple_stmt'' [Leaf COMMENT 3 0],
         Leaf NAME 4 0, Leaf NAME 4 4,
         Node ''parameters'' [Leaf (OTHER_TOKEN 7) 4 5, Leaf (OTHER_TOKEN 8) 4 6],
         Leaf (OTHER_TOKEN 11) 4 7,
         Node ''suite''
           [Leaf (OTHER_TOKEN 4) 4 8, Leaf (OTHER_TOKEN 5) 5 0,
            Node ''simple_stmt'' [Node ''pass_stmt'' [Leaf NAME 5 2], Leaf (OTHER_TOKEN 4) 5 6],
            Leaf (OTHER_TOKEN 6) 6 0]],
      Leaf (OTHER_TOKEN 0) 6 0]"

text \<open>The same file with a class in place of the function.\<close>

definition commented_class :: pytree where
  "commented_class = Node ''file_input''
     [Node ''simple_stmt''
        [Node ''expr_stmt'' [Leaf NAME 1 0, Leaf (OTHER_TOKEN 22) 1 2, Leaf (OTHER_TOKEN 2) 1 4],
         Leaf (OTHER_TOKEN 4) 1 5],
      Node ''classdef''
        [Node ''simple_stmt'' [Leaf COMMENT 3 0],
         Leaf NAME 4 0, Leaf NAME 4 6,
         Leaf (OTHER_TOKEN 11) 4 7,
         Node ''suite''
           [Leaf (OTHER_TOKEN 4) 4 8, Leaf (OTHER_TOKEN 5) 5 0,
            Node ''simple_stmt'' [Node ''pass_stmt'' [Leaf NAME 5 2], Leaf (OTHER_TOKEN 4) 5 6],
            Leaf (OTHER_TOKEN 6) 6 0]],
      Leaf (OTHER_TOKEN 0) 6 0]"

text \<open>A file that starts with a function definition on line 1.\<close>

definition one_function :: pytree where
  "one_function = Node ''file_input''
     [Node ''funcdef''
        [Leaf NAME 1 0, Leaf NAME 1 4,
         Node ''parameters'' [Leaf (OTHER_TOKEN 7) 1 5, Leaf (OTHER_TOKEN 8) 1 6],
         Leaf (OTHER_TOKEN 11) 1 7,
         Node ''suite''
           [Leaf (OTHER_TOKEN 4) 1 8, Leaf (OTHER_TOKEN 5) 2 0,
            Node ''simple_stmt'' [Node ''pass_stmt'' [Leaf NAME 2 2], Leaf (OTHER_TOKEN 4) 2 6],
            Leaf (OTHER_TOKEN 6) 3 0]],
      Leaf (OTHER_TOKEN 0) 3 0]"

text \<open>
  A class whose body holds an assignment on line 2, a comment on line 3 and a method on
  line 6 with two decorators, on lines 4 and 5.
\<close>

definition decorated_method :: pytree where
  "decorated_method = Node ''file_input''
     [Node ''classdef''
        [Leaf NAME 1 0, Leaf NAME 1 6, Leaf (OTHER_TOKEN 11) 1 7,
         Node ''suite''
           [Leaf (OTHER_TOKEN 4) 1 8, Leaf (OTHER_TOKEN 5) 2 0,
            Node ''simple_stmt''
              [Node ''expr_stmt'' [Leaf NAME 2 2, Leaf (OTHER_TOKEN 22) 2 4, Leaf (OTHER_TOKEN 2) 2 6],
               Leaf (OTHER_TOKEN 4) 2 7],
            Node ''simple_stmt'' [Leaf COMMENT 3 2],
            Node ''decorated''
              [Node ''decorators''
                 [Node ''decorator'' [Leaf (OTHER_TOKEN 50) 4 2, Leaf NAME 4 3, Leaf (OTHER_TOKEN 4) 4 4],
                  Node ''decorator'' [Leaf (OTHER_TOKEN 50) 5 2, Leaf NAME 5 3, Leaf (OTHER_TOKEN 4) 5 4]],
               Node ''funcdef''
                 [Leaf NAME 6 2, Leaf NAME 6 6,
                  Node ''parameters'' [Leaf (OTHER_TOKEN 7) 6 7, Leaf (OTHER_TOKEN 8) 6 8],
                  Leaf (OTHER_TOKEN 11) 6 9,
                  Node ''suite''
                    [Leaf (OTHER_TOKEN 4) 6 10, Leaf (OTHER_TOKEN 5) 7 0,
                     Node ''simple_stmt''
                       [Node ''pass_stmt'' [Leaf NAME 7 4], Leaf (OTHER_TOKEN 4) 7 8],
                     Leaf (OTHER_TOKEN 6) 8 0]]],
            Leaf (OTHER_TOKEN 6) 8 0]],
      Leaf (OTHER_TOKEN 0) 8 0]"

text \<open>The calculator in that class body after the comment, and after the first decorator.\<close>

definition after_comment :: state where
  "after_comment = (init [])\<lparr>class_level := 1, last_comment_lineno := 3, prev_stmt := Some [2, 3, 0]\<rparr>"

definition after_decorator :: state where
  "after_decorator = after_comment\<lparr>last_was_decorator := True\<rparr>"

text \<open>A decorator that decorates nothing.\<close>

definition lone_decorator :: pytree where
  "lone_decorator = Node ''file_input''
     [Node ''decorator'' [Leaf (OTHER_TOKEN 50) 1 0, Leaf NAME 1 1, Leaf (OTHER_TOKEN 4) 1 2],
      Leaf (OTHER_TOKEN 0) 2 0]"

text \<open>An assignment on line 1 and \<^verbatim>\<open>async def f(): pass\<close> on lines 4 and 5.\<close>

definition async_function :: pytree where
  "async_function = Node ''file_input''
     [Node ''simple_stmt''
        [Node ''expr_stmt'' [Leaf NAME 1 0, Leaf (OTHER_TOKEN 22) 1 2, Leaf (OTHER_TOKEN 2) 1 4],
         Leaf (OTHER_TOKEN 4) 1 5],
      Node ''async_stmt''
        [Leaf ASYNC 4 0,
         Node ''funcdef''
           [Leaf NAME 4 6, Leaf NAME 4 10,
            Node ''parameters'' [Leaf (OTHER_TOKEN 7) 4 11, Leaf (OTHER_TOKEN 8) 4 12],
            Leaf (OTHER_TOKEN 11) 4 13,
            Node ''suite''
              [Leaf (OTHER_TOKEN 4) 4 14, Leaf (OTHER_TOKEN 5) 5 0,
               Node ''simple_stmt'' [Node ''pass_stmt'' [Leaf NAME 5 2], Leaf (OTHER_TOKEN 4) 5 6],
               Leaf (OTHER_TOKEN 6) 6 0]]],
      Leaf (OTHER_TOKEN 0) 6 0]"

text \<open>The same file with a comment on line 3 as the first child of the function definition.\<close>

definition async_commented :: pytree where
  "async_commented = Node ''file_input''
     [Node ''simple_stmt''
        [Node ''expr_stmt'' [Leaf NAME 1 0, Leaf (OTHER_TOKEN 22) 1 2, Leaf (OTHER_TOKEN 2) 1 4],
         Leaf (OTHER_TOKEN 4) 1 5],
      Node ''async_stmt''
        [Leaf ASYNC 4 0,
         Node ''funcdef''
           [Node ''simple_stmt'' [Leaf COMMENT 3 0],
            Leaf NAME 4 6, Leaf NAME 4 10,
            Node ''parameters'' [Leaf (OTHER_TOKEN 7) 4 11, Leaf (OTHER_TOKEN 8) 4 12],
            Leaf (OTHER_TOKEN 11) 4 13,
            Node ''suite''
              [Leaf (OTHER_TOKEN 4) 4 14, Leaf (OTHER_TOKEN 5) 5 0,
               Node ''simple_stmt'' [Node ''pass_stmt'' [Leaf NAME 5 2], Leaf (OTHER_TOKEN 4) 5 6],
               Leaf (OTHER_TOKEN 6) 6 0]]],
      Leaf (OTHER_TOKEN 0) 6 0]"

text \<open>The calculator of a fresh run that enters the function of \<open>async_function\<close> at once.\<close>

definition async_entered :: state where
  "async_entered =
     \<lparr>class_level = 0, function_level = 1, last_comment_lineno = 0,
      last_was_decorator = False, last_was_class_or_function = False, prev_stmt = None,
      newlines = [([0, 1, 1], None), ([0, 1], Some 3), ([0, 1, 1], Some 3)], visited = []\<rparr>"

section \<open>Notions for the properties of a walk\<close>

text \<open>The same state with older annotations underneath those written so far.\<close>

definition ext :: "(path \<times> int option) list \<Rightarrow> state \<Rightarrow> state" where
  "ext older s = s\<lparr>newlines := newlines s @ older\<rparr>"

abbreviation ext_pre ::
  "(path \<times> int option) list \<Rightarrow> error + (state \<times> nat) \<Rightarrow> error + (state \<times> nat)" where
  "ext_pre L \<equiv> map_sum id (map_prod (ext L) id)"

text \<open>The values the calculator can write for a given style, and the states that hold no other.\<close>

definition newline_values :: "style \<Rightarrow> int option set" where
  "newline_values st =
     {None, Some NO_BLANK_LINES, Some ONE_BLANK_LINE,
      Some (1 + BLANK_LINES_AROUND_TOP_LEVEL_DEFINITION st),
      Some (max ONE_BLANK_LINE (1 + BLANK_LINES_BETWEEN_CLASS_DEFS st))}"

definition values_ok :: "style \<Rightarrow> state \<Rightarrow> bool" where
  "values_ok st s \<longleftrightarrow> snd ` set (newlines s) \<subseteq> newline_values st"

text \<open>The \<^verbatim>\<open>async\<close> keyword.\<close>

definition is_async :: "pytree \<Rightarrow> bool" where
  "is_async x = (case x of Leaf ASYNC l c \<Rightarrow> True | _ \<Rightarrow> False)"

text \<open>An async function definition whose first child is its keyword.\<close>

definition async_funcdef :: "pytree \<Rightarrow> path \<Rightarrow> bool" where
  "async_funcdef root p \<longleftrightarrow>
     AsyncFunction root p \<and>
     (case get_node root p of
        Some (Node n (Leaf t l c # rest)) \<Rightarrow>
          n = ''funcdef'' \<and> \<not> is_async (Leaf t l c) \<and> (\<forall>x \<in> set rest. \<not> is_async x)
      | _ \<Rightarrow> False)"

section \<open>Evaluating a walk\<close>

lemma MethodsInSameClass_opt_simps [simp]:
  "MethodsInSameClass_opt root (Some prev) (Some cur) = Inr (MethodsInSameClass root prev cur)"
  "MethodsInSameClass_opt root None cur_opt = Inl AttributeError"
  "MethodsInSameClass_opt root prev_opt None = Inl AttributeError"
  by (simp_all add: MethodsInSameClass_opt_def split: option.splits)

text \<open>With the tests against \<^verbatim>\<open>None\<close> in front, the call never sees \<^verbatim>\<open>None\<close>.\<close>

lemma GetNumNewlines_alt:
  "GetNumNewlines st root s p node =
     (if last_was_decorator s then Inr NO_BLANK_LINES
      else (case IsTopLevel root s p node of
              Inl e \<Rightarrow> Inl e
            | Inr True \<Rightarrow> Inr (1 + BLANK_LINES_AROUND_TOP_LEVEL_DEFINITION st)
            | Inr False \<Rightarrow>
                if (case prev_stmt s of
                      None \<Rightarrow> False
                    | Some prev \<Rightarrow> MethodsInSameClass root prev p)
                then Inr (max ONE_BLANK_LINE (1 + BLANK_LINES_BETWEEN_CLASS_DEFS st))
                else Inr NO_BLANK_LINES))"
  by (auto simp: GetNumNewlines_def split: sum.splits bool.splits option.splits)

lemma Visit_decorator_pre_alt:
  "Visit_decorator_pre st root p node s =
     (let func = DecoratedFuncdef root p
      in case children node of
           [] \<Rightarrow> Inl IndexError
         | c # rest \<Rightarrow>
             (case (if last_comment_lineno s \<noteq> 0
                    then (case lineno c of
                            Inl e \<Rightarrow> Inl e
                          | Inr l \<Rightarrow> Inr (last_comment_lineno s = l - 1))
                    else Inr False) of
                Inl e \<Rightarrow> Inl e
              | Inr True \<Rightarrow> Inr (SetNumNewlines (0 # p) (Some NO_BLANK_LINES) s, 0)
              | Inr False \<Rightarrow>
                  if last_was_decorator s
                  then Inr (SetNumNewlines (0 # p) (Some NO_BLANK_LINES) s, 0)
                  else if (case (func, prev_stmt s) of
                             (Some f, Some prev) \<Rightarrow> MethodsInSameClass root prev f
                           | _ \<Rightarrow> False)
                  then Inr (SetNumNewlines (0 # p)
                              (Some (max ONE_BLANK_LINE (1 + BLANK_LINES_BETWEEN_CLASS_DEFS st)))
                              s, 0)
                  else (case GetNumNewlines st root s p node of
                          Inl e \<Rightarrow> Inl e
                        | Inr num_newlines \<Rightarrow>
                            Inr (SetNumNewlines (0 # p) (Some num_newlines) s, 0))))"
  by (auto simp: Visit_decorator_pre_def Let_def
           split: sum.splits bool.splits option.splits list.splits)

lemmas walk_defs =
  CalculateBlankLines_def walk_def init_def annotation_def result_annotation_def
  Visit_pre_def Visit_post_def Visit_funcdef_pre_def Visit_funcdef_post_def
  Visit_classdef_pre_def Visit_classdef_post_def Visit_decorator_pre_alt Visit_decorator_post_def
  SetBlankLinesBetweenCommentAndClassFunc_def DefaultNodeVisit_pre_def
  GetNumNewlines_alt IsTopLevel_def StartsInZerothColumn_def AsyncFunction_def
  SetNumNewlines_def Visit_leaf_def Visit_simple_stmt_post_def PYTHON_STATEMENTS_def
  NO_BLANK_LINES_def ONE_BLANK_LINE_def MethodsInSameClass_def IsFuncDef_def
  EnclosingClass_def is_kind_def first_child_lineno_def DecoratedFuncdef_def DecoratedTarget_def

section \<open>The rule for the number of newlines\<close>

lemma two_functions_second:
  "result_annotation (CalculateBlankLines st two_functions annots) [0, 1]
     = Some (1 + BLANK_LINES_AROUND_TOP_LEVEL_DEFINITION st)"
  by (simp add: two_functions_def walk_defs)

lemma GetNumNewlines_top:
  assumes "\<not> last_was_decorator s" "class_level s = 0" "function_level s = 0"
    and "StartsInZerothColumn root p node = Inr True"
  shows "GetNumNewlines st root s p node = Inr (1 + BLANK_LINES_AROUND_TOP_LEVEL_DEFINITION st)"
  using assms by (simp add: GetNumNewlines_alt IsTopLevel_def)

text \<open>
  Claim C1, as stated, at the style value 1: the claim gives the keyword of the second of
  two top-level functions the annotation 3 (two blank lines).  The calculator writes
  \<open>1 + 1 = 2\<close>, one blank line: the annotation counts newlines, so the configured value
  is the number of blank lines itself, not a number of blank lines beyond a floor of one.
\<close>

theorem C1_counterexample:
  "result_annotation
     (CalculateBlankLines
        \<lparr>BLANK_LINES_AROUND_TOP_LEVEL_DEFINITION = 1, BLANK_LINES_BETWEEN_CLASS_DEFS = 0\<rparr>
        two_functions []) [0, 1] = Some 2
   \<and> result_annotation
     (CalculateBlankLines
        \<lparr>BLANK_LINES_AROUND_TOP_LEVEL_DEFINITION = 1, BLANK_LINES_BETWEEN_CLASS_DEFS = 0\<rparr>
        two_functions []) [0, 1] \<noteq> Some 3"
  by (simp add: two_functions_def walk_defs)

text \<open>
  Claim C1, amended: for a node at true top level (class and function nesting both 0,
  and \<open>StartsInZerothColumn\<close>: the first token at column 0, or the \<^verbatim>\<open>async\<close> keyword before
  the node at column 0) that does not follow a decorator, the rule returns the
  annotation \<open>1 + BLANK_LINES_AROUND_TOP_LEVEL_DEFINITION\<close>, that is, as many blank lines
  as configured; and the keyword of the second of the two top-level functions of
  \<open>two_functions\<close> ends with that annotation, whatever the style and the annotations
  the tree had before (the value 2 for the configured value 1, the value 3 for 2).
\<close>

theorem C1_top_level:
  "(\<not> last_was_decorator s \<and> class_level s = 0 \<and> function_level s = 0
      \<and> StartsInZerothColumn root p node = Inr True
    \<longrightarrow> GetNumNewlines st root s p node
          = Inr (1 + BLANK_LINES_AROUND_TOP_LEVEL_DEFINITION st))
   \<and> result_annotation (CalculateBlankLines st two_functions annots) [0, 1]
       = Some (1 + BLANK_LINES_AROUND_TOP_LEVEL_DEFINITION st)"
  using GetNumNewlines_top [of s root p node st] two_functions_second [of st annots]
  by blast

theorem C1_top_level_witness:
  "\<not> last_was_decorator (init []) \<and> class_level (init []) = 0 \<and> function_level (init []) = 0
   \<and> StartsInZerothColumn two_functions [1] (children two_functions ! 1) = Inr True
   \<and> GetNumNewlines default_style two_functions (init []) [1] (children two_functions ! 1) = Inr 3
   \<and> result_annotation (CalculateBlankLines default_style two_functions []) [0, 1] = Some 3"
  using C1_top_level [of "init []" two_functions "[1]" "children two_functions ! 1"
                         default_style "[]"]
  by (simp add: init_def two_functions_def default_style_def StartsInZerothColumn_def)

lemma MethodsInSameClass_iff:
  "MethodsInSameClass root prev cur \<longleftrightarrow>
     IsFuncDef root (EnclosingFunc root prev) \<and> IsFuncDef root (EnclosingFunc root cur)
     \<and> EnclosingClass root (Option.bind (EnclosingFunc root prev) parent) \<noteq> None
     \<and> EnclosingClass root (Option.bind (EnclosingFunc root prev) parent)
       = EnclosingClass root (Option.bind (EnclosingFunc root cur) parent)"
  by (auto simp: MethodsInSameClass_def Let_def)

text \<open>
  Claim C2, as stated, at the style value 1: for the second of two methods of one class
  the claim gives \<open>max 1 (1 + 1) = 2\<close> blank lines, the annotation 3.  The calculator
  writes \<open>max 2 (1 + 1) = 2\<close>, one blank line.
\<close>

theorem C2_counterexample:
  "result_annotation (CalculateBlankLines default_style two_methods []) [0, 3, 3, 0] = Some 2
   \<and> result_annotation (CalculateBlankLines default_style two_methods []) [0, 3, 3, 0]
       \<noteq> Some (1 + max 1 (1 + BLANK_LINES_BETWEEN_CLASS_DEFS default_style))"
  by (simp add: two_methods_def default_style_def walk_defs)

text \<open>
  Claim C2, amended: for a node that is not top-level and does not follow a decorator,
  when the remembered previous statement and the node each resolve to a function
  definition and these to the same class, the annotation is
  \<open>max 2 (1 + BLANK_LINES_BETWEEN_CLASS_DEFS)\<close>, that is
  \<open>max 1 BLANK_LINES_BETWEEN_CLASS_DEFS\<close> blank lines, never fewer than one; when there
  is no previous statement, or either side does not resolve to a function definition, or
  the classes differ or are absent, the annotation is 1, no blank line.
\<close>

theorem C2_same_class:
  assumes "\<not> last_was_decorator s" and "IsTopLevel root s p node = Inr False"
  shows "GetNumNewlines st root s p node =
           Inr (if (case prev_stmt s of
                      None \<Rightarrow> False
                    | Some prev \<Rightarrow>
                        IsFuncDef root (EnclosingFunc root prev)
                        \<and> IsFuncDef root (EnclosingFunc root p)
                        \<and> EnclosingClass root (Option.bind (EnclosingFunc root prev) parent) \<noteq> None
                        \<and> EnclosingClass root (Option.bind (EnclosingFunc root prev) parent)
                          = EnclosingClass root (Option.bind (EnclosingFunc root p) parent))
                then 1 + max 1 (BLANK_LINES_BETWEEN_CLASS_DEFS st)
                else 1 + 0)"
  using assms
  by (auto simp: GetNumNewlines_alt MethodsInSameClass_iff ONE_BLANK_LINE_def NO_BLANK_LINES_def
           split: option.splits)

theorem C2_same_class_witness:
  "\<not> last_was_decorator in_class
   \<and> IsTopLevel two_methods in_class [3, 3, 0] (Node ''funcdef'' [Leaf NAME 4 2]) = Inr False
   \<and> GetNumNewlines default_style two_methods in_class [3, 3, 0] (Node ''funcdef'' [Leaf NAME 4 2])
       = Inr 2"
  using C2_same_class [of in_class two_methods "[3, 3, 0]" "Node ''funcdef'' [Leaf NAME 4 2]"
                          default_style]
  by (simp add: in_class_def init_def IsTopLevel_def two_methods_def default_style_def
                IsFuncDef_def EnclosingClass_def is_kind_def)


section \<open>Comments before a definition\<close>

lemma leading_comments_run:
  assumes "\<forall>x \<in> set comments. IsCommentStatement x = Inr True"
    and "IsCommentStatement x = Inr False"
  shows "\<exists>s'. leading_comments p i (comments @ x # rest) s = Inr (s', i + length comments)
           \<and> last_comment_lineno s' = last_comment_lineno s
           \<and> last_was_decorator s' = last_was_decorator s
           \<and> class_level s' = class_level s \<and> function_level s' = function_level s
           \<and> prev_stmt s' = prev_stmt s"
  using assms
proof (induction comments arbitrary: i s)
  case Nil
  then show ?case by simp
next
  case (Cons a comments)
  let ?s1 = "Visit_leaf (0 # i # p) s"
  let ?s2 = "if \<not> last_was_decorator ?s1
             then SetNumNewlines (0 # i # p) (Some ONE_BLANK_LINE) ?s1 else ?s1"
  from Cons.prems have a: "IsCommentStatement a = Inr True"
    and rest: "\<forall>x \<in> set comments. IsCommentStatement x = Inr True" by simp_all
  from Cons.IH [OF rest Cons.prems(2), of "Suc i" ?s2]
  obtain s' where s': "leading_comments p (Suc i) (comments @ x # rest) ?s2
        = Inr (s', Suc i + length comments)"
      "last_comment_lineno s' = last_comment_lineno ?s2"
      "last_was_decorator s' = last_was_decorator ?s2"
      "class_level s' = class_level ?s2" "function_level s' = function_level ?s2"
      "prev_stmt s' = prev_stmt ?s2"
    by blast
  have "leading_comments p i ((a # comments) @ x # rest) s = Inr (s', i + length (a # comments))"
    using a s'(1) by (simp add: Let_def)
  moreover have "last_comment_lineno ?s2 = last_comment_lineno s"
    "last_was_decorator ?s2 = last_was_decorator s"
    "class_level ?s2 = class_level s" "function_level ?s2 = function_level s"
    "prev_stmt ?s2 = prev_stmt s"
    by (simp_all add: Visit_leaf_def SetNumNewlines_def)
  ultimately show ?case using s' by simp
qed

lemma routine_adjacent:
  assumes kids: "children node = comments @ Leaf t l c # rest"
    and com: "\<forall>x \<in> set comments. IsCommentStatement x = Inr True"
    and adj: "(comments \<noteq> [] \<and> first_child_lineno (last comments) = Inr (l - 1))
              \<or> last_comment_lineno s + 1 = l"
  shows "\<exists>s1. SetBlankLinesBetweenCommentAndClassFunc st root p node s =
           Inr (SetNumNewlines (length comments # p) (Some NO_BLANK_LINES) s1, length comments)"
proof -
  have leaf: "IsCommentStatement (Leaf t l c) = Inr False" by simp
  from leading_comments_run [OF com leaf, of p 0 rest s]
  obtain s1 where s1: "leading_comments p 0 (children node) s = Inr (s1, length comments)"
     "last_comment_lineno s1 = last_comment_lineno s"
    using kids by auto
  show ?thesis
  proof (cases "comments = []")
    case True
    with adj have "last_comment_lineno s + 1 = l" by simp
    with s1 True kids show ?thesis
      by (auto simp: SetBlankLinesBetweenCommentAndClassFunc_def)
  next
    case False
    then have nth: "(comments @ Leaf t l c # rest) ! (length comments - 1) = last comments"
      by (simp add: nth_append last_conv_nth)
    obtain r where r: "first_child_lineno (last comments) = r" by simp
    from com False have "IsCommentStatement (last comments) = Inr True" by simp
    then obtain cl where cl: "first_child_lineno (last comments) = Inr cl"
      by (cases "last comments")
         (auto simp: first_child_lineno_def split: if_splits list.splits pytree.splits token.splits)
    show ?thesis
      using s1 False kids nth cl adj
      by (auto simp: SetBlankLinesBetweenCommentAndClassFunc_def split: bool.splits)
  qed
qed


text \<open>
  Claim C7: in the placement routine, when the node has leading comment statements and
  the last of them is on the line just before the first child that is not a comment (a
  token on line \<open>l\<close>), or when the remembered last comment line plus one is \<open>l\<close>, the
  routine succeeds, returns the index of that child and leaves it annotated with
  \<open>NO_BLANK_LINES\<close> (the value 1, no blank line).
\<close>

theorem C7_comment_attachment:
  assumes "children node = comments @ Leaf t l c # rest"
    and "\<forall>x \<in> set comments. IsCommentStatement x = Inr True"
    and "(comments \<noteq> [] \<and> first_child_lineno (last comments) = Inr (l - 1))
         \<or> last_comment_lineno s + 1 = l"
  shows "\<exists>s'. SetBlankLinesBetweenCommentAndClassFunc st root p node s = Inr (s', length comments)
           \<and> annotation (newlines s') (length comments # p) = Some NO_BLANK_LINES"
proof -
  from routine_adjacent [OF assms, of st root p]
  obtain s1 where "SetBlankLinesBetweenCommentAndClassFunc st root p node s =
      Inr (SetNumNewlines (length comments # p) (Some NO_BLANK_LINES) s1, length comments)"
    by blast
  then show ?thesis by (simp add: SetNumNewlines_def annotation_def)
qed

theorem C7_comment_attachment_witness:
  "children (children commented_function ! 1)
     = [Node ''simple_stmt'' [Leaf COMMENT 3 0]] @ Leaf NAME 4 0 # drop 2 (children (children commented_function ! 1))
   \<and> IsCommentStatement (Node ''simple_stmt'' [Leaf COMMENT 3 0]) = Inr True
   \<and> first_child_lineno (last [Node ''simple_stmt'' [Leaf COMMENT 3 0]]) = Inr (4 - 1)
   \<and> (\<exists>s'. SetBlankLinesBetweenCommentAndClassFunc default_style commented_function [1]
               (children commented_function ! 1) (init []) = Inr (s', 1)
            \<and> annotation (newlines s') [1, 1] = Some 1)"
  using C7_comment_attachment [of "children commented_function ! 1"
          "[Node ''simple_stmt'' [Leaf COMMENT 3 0]]" NAME 4 0
          "drop 2 (children (children commented_function ! 1))" "init []"
          default_style commented_function "[1]"]
  by (simp add: commented_function_def first_child_lineno_def NO_BLANK_LINES_def)

lemma one_function_keyword:
  "result_annotation (CalculateBlankLines st one_function annots) [0, 0] = Some NO_BLANK_LINES"
  by (simp add: one_function_def walk_defs)

lemma one_function_generic:
  "GetNumNewlines st one_function (init annots) [0] (children one_function ! 0)
     = Inr (1 + BLANK_LINES_AROUND_TOP_LEVEL_DEFINITION st)"
  by (simp add: one_function_def walk_defs)

text \<open>
  Claim C9: when the first child that is not a comment is a token on line 1 and no
  comment line has been remembered (\<open>last_comment_lineno\<close> is still 0), the routine
  annotates that child with \<open>NO_BLANK_LINES\<close>, since \<open>0 + 1 = 1\<close>: the test does not
  exclude the initial 0.  So in a file that starts with a function definition the
  keyword ends with the annotation 1 whatever the style, although the generic rule gives
  \<open>1 + BLANK_LINES_AROUND_TOP_LEVEL_DEFINITION\<close> for that node.
\<close>

theorem C9_line_one_sentinel:
  "(children node = comments @ Leaf t 1 c # rest
      \<and> (\<forall>x \<in> set comments. IsCommentStatement x = Inr True)
      \<and> last_comment_lineno s = 0
    \<longrightarrow> (\<exists>s'. SetBlankLinesBetweenCommentAndClassFunc st root p node s
                 = Inr (s', length comments)
             \<and> annotation (newlines s') (length comments # p) = Some NO_BLANK_LINES))
   \<and> result_annotation (CalculateBlankLines st one_function annots) [0, 0] = Some NO_BLANK_LINES
   \<and> GetNumNewlines st one_function (init annots) [0] (children one_function ! 0)
       = Inr (1 + BLANK_LINES_AROUND_TOP_LEVEL_DEFINITION st)"
proof (intro conjI impI)
  assume a: "children node = comments @ Leaf t 1 c # rest
      \<and> (\<forall>x \<in> set comments. IsCommentStatement x = Inr True)
      \<and> last_comment_lineno s = 0"
  then have "(comments \<noteq> [] \<and> first_child_lineno (last comments) = Inr (1 - 1))
         \<or> last_comment_lineno s + 1 = 1" by simp
  with a routine_adjacent [of node comments t 1 c rest s st root p]
  obtain s1 where "SetBlankLinesBetweenCommentAndClassFunc st root p node s =
      Inr (SetNumNewlines (length comments # p) (Some NO_BLANK_LINES) s1, length comments)"
    by blast
  then show "\<exists>s'. SetBlankLinesBetweenCommentAndClassFunc st root p node s
                 = Inr (s', length comments)
             \<and> annotation (newlines s') (length comments # p) = Some NO_BLANK_LINES"
    by (simp add: SetNumNewlines_def annotation_def)
next
  show "result_annotation (CalculateBlankLines st one_function annots) [0, 0] = Some NO_BLANK_LINES"
    by (rule one_function_keyword)
next
  show "GetNumNewlines st one_function (init annots) [0] (children one_function ! 0)
       = Inr (1 + BLANK_LINES_AROUND_TOP_LEVEL_DEFINITION st)"
    by (rule one_function_generic)
qed

theorem C9_line_one_sentinel_witness:
  "children (children one_function ! 0) = [] @ Leaf NAME 1 0 # drop 1 (children (children one_function ! 0))
   \<and> last_comment_lineno (init []) = 0
   \<and> (\<exists>s'. SetBlankLinesBetweenCommentAndClassFunc default_style one_function [0]
              (children one_function ! 0) (init []) = Inr (s', 0)
           \<and> annotation (newlines s') [0, 0] = Some 1)
   \<and> result_annotation (CalculateBlankLines default_style one_function []) [0, 0] = Some 1
   \<and> GetNumNewlines default_style one_function (init []) [0] (children one_function ! 0) = Inr 3"
  using C9_line_one_sentinel [of "children one_function ! 0" "[]" NAME 0
          "drop 1 (children (children one_function ! 0))" "init []" default_style one_function "[0]" "[]"]
  by (simp add: one_function_def init_def NO_BLANK_LINES_def default_style_def)


section \<open>Decorators\<close>

lemma GetNumNewlines_after_decorator:
  "last_was_decorator s \<Longrightarrow> GetNumNewlines st root s p node = Inr NO_BLANK_LINES"
  by (simp add: GetNumNewlines_alt)

lemma Visit_decorator_pre_hug:
  assumes "children node = c # rest" and "lineno c = Inr l"
    and "last_was_decorator s \<or> (last_comment_lineno s \<noteq> 0 \<and> last_comment_lineno s = l - 1)"
  shows "Visit_decorator_pre st root p node s
           = Inr (SetNumNewlines (0 # p) (Some NO_BLANK_LINES) s, 0)"
  using assms by (auto simp: Visit_decorator_pre_alt Let_def split: bool.splits)

text \<open>
  Claim C5: when a decorator node is visited and either the previous sibling was a
  decorator or a comment has been remembered (a nonzero line) on the line just before
  the decorator's first token, the first token is annotated with \<open>NO_BLANK_LINES\<close>
  (the value 1); and the generic rule returns 1 whenever the previous sibling was a
  decorator, before the top-level and the same-class rules are looked at.
\<close>

theorem C5_decorator_hugging:
  "(children node = c # rest \<and> lineno c = Inr l
      \<and> (last_was_decorator s \<or> (last_comment_lineno s \<noteq> 0 \<and> last_comment_lineno s = l - 1))
    \<longrightarrow> Visit_decorator_pre st root p node s
          = Inr (SetNumNewlines (0 # p) (Some NO_BLANK_LINES) s, 0)
        \<and> annotation (newlines (SetNumNewlines (0 # p) (Some NO_BLANK_LINES) s)) (0 # p) = Some 1)
   \<and> (last_was_decorator s \<longrightarrow> GetNumNewlines st root s q other = Inr 1)"
  using Visit_decorator_pre_hug [of node c rest l s st root p]
        GetNumNewlines_after_decorator [of s st root q other]
  by (auto simp: SetNumNewlines_def annotation_def NO_BLANK_LINES_def)

theorem C5_decorator_hugging_witness:
  "children (Node ''decorator'' [Leaf (OTHER_TOKEN 50) 4 2, Leaf NAME 4 3, Leaf (OTHER_TOKEN 4) 4 4])
      = Leaf (OTHER_TOKEN 50) 4 2 # [Leaf NAME 4 3, Leaf (OTHER_TOKEN 4) 4 4]
   \<and> lineno (Leaf (OTHER_TOKEN 50) 4 2) = Inr 4
   \<and> last_comment_lineno after_comment \<noteq> 0 \<and> last_comment_lineno after_comment = 4 - 1
   \<and> Visit_decorator_pre default_style decorated_method [0, 0, 4, 3, 0]
        (Node ''decorator'' [Leaf (OTHER_TOKEN 50) 4 2, Leaf NAME 4 3, Leaf (OTHER_TOKEN 4) 4 4])
        after_comment
      = Inr (SetNumNewlines [0, 0, 0, 4, 3, 0] (Some NO_BLANK_LINES) after_comment, 0)
   \<and> last_was_decorator after_decorator
   \<and> GetNumNewlines default_style decorated_method after_decorator [1, 4, 3, 0]
        (Node ''funcdef'' [Leaf NAME 6 2]) = Inr 1"
  using C5_decorator_hugging [of
     "Node ''decorator'' [Leaf (OTHER_TOKEN 50) 4 2, Leaf NAME 4 3, Leaf (OTHER_TOKEN 4) 4 4]"
     "Leaf (OTHER_TOKEN 50) 4 2" "[Leaf NAME 4 3, Leaf (OTHER_TOKEN 4) 4 4]" 4
     after_comment default_style decorated_method "[0, 0, 4, 3, 0]"]
    C5_decorator_hugging [of
     "Node ''decorator'' [Leaf (OTHER_TOKEN 50) 4 2, Leaf NAME 4 3, Leaf (OTHER_TOKEN 4) 4 4]"
     "Leaf (OTHER_TOKEN 50) 4 2" "[Leaf NAME 4 3, Leaf (OTHER_TOKEN 4) 4 4]" 4
     after_decorator default_style decorated_method "[0, 0, 4, 3, 0]" "[1, 4, 3, 0]"
     "Node ''funcdef'' [Leaf NAME 6 2]"]
  by (simp add: after_comment_def after_decorator_def init_def)

lemma GetNumNewlines_visited:
  "GetNumNewlines st root (s\<lparr>visited := vs\<rparr>) p node = GetNumNewlines st root s p node"
  by (simp add: GetNumNewlines_alt IsTopLevel_def)

text \<open>
  Claim C10: take a decorator node whose first child is a token, in a state where the
  decorated function cannot be resolved or no previous statement has been recorded.
  Calling \<^verbatim>\<open>_MethodsInSameClass\<close> on these two values would raise, but the test against
  \<^verbatim>\<open>None\<close> in front keeps the call away: the visit does not raise before its loop over
  the children, the generic rule does not raise either, and the first token ends
  annotated, with \<open>NO_BLANK_LINES\<close> when the comment or the decorator rule applies and
  with the value of the generic rule otherwise.  The whole visit then returns whenever
  the visits of the children do.
\<close>

theorem C10_decorator_guard:
  "children node = Leaf t l c # rest \<and> (DecoratedFuncdef root p = None \<or> prev_stmt s = None)
   \<longrightarrow> MethodsInSameClass_opt root (prev_stmt s) (DecoratedFuncdef root p) = Inl AttributeError
       \<and> (\<exists>v s'. GetNumNewlines st root s p node = Inr v
              \<and> Visit_decorator_pre st root p node s = Inr (s', 0)
              \<and> annotation (newlines s') (0 # p)
                  = Some (if (last_comment_lineno s \<noteq> 0 \<and> last_comment_lineno s = l - 1)
                             \<or> last_was_decorator s
                          then NO_BLANK_LINES else v)
              \<and> (NodeName node = ''decorator''
                 \<longrightarrow> Visit st root p node s =
                       (case VisitChildren st root p 0 (children node)
                               (s'\<lparr>visited := p # visited s'\<rparr>) of
                          Inl e \<Rightarrow> Inl e
                        | Inr s2 \<Rightarrow> Inr (s2\<lparr>last_was_decorator := True\<rparr>))))"
proof (intro impI, elim conjE)
  assume kids: "children node = Leaf t l c # rest"
    and unres: "DecoratedFuncdef root p = None \<or> prev_stmt s = None"
  let ?w = "\<lambda>v. Some (if (last_comment_lineno s \<noteq> 0 \<and> last_comment_lineno s = l - 1)
                             \<or> last_was_decorator s
                          then NO_BLANK_LINES else v)"
  let ?s0 = "s\<lparr>visited := p # visited s\<rparr>"
  from kids obtain n where node: "node = Node n (Leaf t l c # rest)"
    by (cases node) auto
  from unres have raises:
    "MethodsInSameClass_opt root (prev_stmt s) (DecoratedFuncdef root p) = Inl AttributeError"
    by (auto simp: MethodsInSameClass_opt_def split: option.splits)
  have "\<exists>v. GetNumNewlines st root s p node = Inr v"
    unfolding node
    by (cases "prev_stmt s")
       (simp_all add: GetNumNewlines_def MethodsInSameClass_opt_def IsTopLevel_def
                      StartsInZerothColumn_def split: bool.splits)
  then obtain v where v: "GetNumNewlines st root s p node = Inr v" by blast
  have pre_at: "Visit_decorator_pre st root p node x = Inr (SetNumNewlines (0 # p) (?w v) x, 0)"
    if "last_comment_lineno x = last_comment_lineno s"
      and "last_was_decorator x = last_was_decorator s"
      and "prev_stmt x = prev_stmt s"
      and "GetNumNewlines st root x p node = Inr v" for x
    using that kids unres
    by (cases "DecoratedFuncdef root p"; cases "prev_stmt s")
       (auto simp: Visit_decorator_pre_def MethodsInSameClass_opt_def Let_def)
  from pre_at [of s] v
  have pre: "Visit_decorator_pre st root p node s = Inr (SetNumNewlines (0 # p) (?w v) s, 0)"
    by simp
  let ?s' = "SetNumNewlines (0 # p) (?w v) s"
  have read: "annotation (newlines ?s') (0 # p) = ?w v"
    by (simp add: SetNumNewlines_def annotation_def)
  have whole: "Visit st root p node s =
                 (case VisitChildren st root p 0 (children node)
                         (?s'\<lparr>visited := p # visited ?s'\<rparr>) of
                    Inl e \<Rightarrow> Inl e
                  | Inr s2 \<Rightarrow> Inr (s2\<lparr>last_was_decorator := True\<rparr>))"
    if name: "NodeName node = ''decorator''"
  proof -
    from node name have dec: "node = Node ''decorator'' (Leaf t l c # rest)" by simp
    from pre_at [of ?s0] v
    have "Visit_decorator_pre st root p node ?s0 = Inr (SetNumNewlines (0 # p) (?w v) ?s0, 0)"
      by (simp add: GetNumNewlines_visited)
    moreover have "SetNumNewlines (0 # p) (?w v) ?s0 = ?s'\<lparr>visited := p # visited ?s'\<rparr>"
      by (simp add: SetNumNewlines_def)
    ultimately show ?thesis
      by (simp add: dec Visit_pre_def Visit_post_def Visit_decorator_post_def
               split: sum.splits)
  qed
  from raises v pre read whole
  show "MethodsInSameClass_opt root (prev_stmt s) (DecoratedFuncdef root p) = Inl AttributeError
       \<and> (\<exists>v s'. GetNumNewlines st root s p node = Inr v
              \<and> Visit_decorator_pre st root p node s = Inr (s', 0)
              \<and> annotation (newlines s') (0 # p) = ?w v
              \<and> (NodeName node = ''decorator''
                 \<longrightarrow> Visit st root p node s =
                       (case VisitChildren st root p 0 (children node)
                               (s'\<lparr>visited := p # visited s'\<rparr>) of
                          Inl e \<Rightarrow> Inl e
                        | Inr s2 \<Rightarrow> Inr (s2\<lparr>last_was_decorator := True\<rparr>))))"
    by blast
qed

theorem C10_decorator_guard_witness:
  "children (children lone_decorator ! 0)
     = Leaf (OTHER_TOKEN 50) 1 0 # [Leaf NAME 1 1, Leaf (OTHER_TOKEN 4) 1 2]
   \<and> DecoratedFuncdef lone_decorator [0] = None \<and> prev_stmt (init []) = None
   \<and> NodeName (children lone_decorator ! 0) = ''decorator''
   \<and> MethodsInSameClass_opt lone_decorator (prev_stmt (init [])) (DecoratedFuncdef lone_decorator [0])
       = Inl AttributeError
   \<and> GetNumNewlines default_style lone_decorator (init []) [0] (children lone_decorator ! 0) = Inr 3
   \<and> Visit_decorator_pre default_style lone_decorator [0] (children lone_decorator ! 0) (init [])
       = Inr (SetNumNewlines [0, 0] (Some 3) (init []), 0)
   \<and> annotation (newlines (SetNumNewlines [0, 0] (Some 3) (init []))) [0, 0] = Some 3
   \<and> visits (Visit default_style lone_decorator [0] (children lone_decorator ! 0) (init []))
       = [[2, 0], [1, 0], [0, 0], [0]]"
proof -
  have kids: "children (children lone_decorator ! 0)
     = Leaf (OTHER_TOKEN 50) 1 0 # [Leaf NAME 1 1, Leaf (OTHER_TOKEN 4) 1 2]"
    by (simp add: lone_decorator_def)
  have func: "DecoratedFuncdef lone_decorator [0] = None"
    by (simp add: lone_decorator_def DecoratedFuncdef_def DecoratedTarget_def is_kind_def)
  have prev: "prev_stmt (init []) = None" by (simp add: init_def)
  have name: "NodeName (children lone_decorator ! 0) = ''decorator''"
    by (simp add: lone_decorator_def)
  have generic: "GetNumNewlines default_style lone_decorator (init []) [0]
      (children lone_decorator ! 0) = Inr 3"
    by (simp add: lone_decorator_def init_def GetNumNewlines_def IsTopLevel_def
                  StartsInZerothColumn_def default_style_def)
  have pre: "Visit_decorator_pre default_style lone_decorator [0] (children lone_decorator ! 0)
      (init []) = Inr (SetNumNewlines [0, 0] (Some 3) (init []), 0)"
    using func generic
    by (simp add: Visit_decorator_pre_def Let_def lone_decorator_def init_def)
  have read: "annotation (newlines (SetNumNewlines [0, 0] (Some 3) (init []))) [0, 0] = Some 3"
    by (simp add: SetNumNewlines_def annotation_def)
  have whole: "visits (Visit default_style lone_decorator [0] (children lone_decorator ! 0)
      (init [])) = [[2, 0], [1, 0], [0, 0], [0]]"
    using func
    by (simp add: lone_decorator_def init_def visits_def Visit_pre_def Visit_post_def
                  Visit_decorator_pre_def Visit_decorator_post_def Let_def GetNumNewlines_def
                  IsTopLevel_def StartsInZerothColumn_def AsyncFunction_def SetNumNewlines_def
                  Visit_leaf_def default_style_def)
  have unres: "DecoratedFuncdef lone_decorator [0] = None \<or> prev_stmt (init []) = None"
    using func by (rule disjI1)
  from C10_decorator_guard [of "children lone_decorator ! 0" "OTHER_TOKEN 50" 1 0
          "[Leaf NAME 1 1, Leaf (OTHER_TOKEN 4) 1 2]" lone_decorator "[0]" "init []" default_style,
          THEN mp, OF conjI, OF kids unres, THEN conjunct1]
  have raises: "MethodsInSameClass_opt lone_decorator (prev_stmt (init []))
      (DecoratedFuncdef lone_decorator [0]) = Inl AttributeError" .
  from kids func prev name raises generic pre read whole show ?thesis
    by (intro conjI)
qed

section \<open>A walk does not read the annotations\<close>

lemma ext_fields [simp]:
  "class_level (ext L s) = class_level s"
  "function_level (ext L s) = function_level s"
  "last_comment_lineno (ext L s) = last_comment_lineno s"
  "last_was_decorator (ext L s) = last_was_decorator s"
  "last_was_class_or_function (ext L s) = last_was_class_or_function s"
  "prev_stmt (ext L s) = prev_stmt s"
  "visited (ext L s) = visited s"
  "newlines (ext L s) = newlines s @ L"
  by (simp_all add: ext_def)

lemma ext_updates [simp]:
  "SetNumNewlines p v (ext L s) = ext L (SetNumNewlines p v s)"
  "Visit_leaf p (ext L s) = ext L (Visit_leaf p s)"
  "(ext L s)\<lparr>visited := vs\<rparr> = ext L (s\<lparr>visited := vs\<rparr>)"
  "(ext L s)\<lparr>last_was_class_or_function := b\<rparr> = ext L (s\<lparr>last_was_class_or_function := b\<rparr>)"
  "(ext L s)\<lparr>last_was_decorator := b\<rparr> = ext L (s\<lparr>last_was_decorator := b\<rparr>)"
  "(ext L s)\<lparr>last_comment_lineno := l\<rparr> = ext L (s\<lparr>last_comment_lineno := l\<rparr>)"
  "(ext L s)\<lparr>prev_stmt := q\<rparr> = ext L (s\<lparr>prev_stmt := q\<rparr>)"
  "(ext L s)\<lparr>class_level := k\<rparr> = ext L (s\<lparr>class_level := k\<rparr>)"
  "(ext L s)\<lparr>function_level := k\<rparr> = ext L (s\<lparr>function_level := k\<rparr>)"
  by (simp_all add: ext_def SetNumNewlines_def Visit_leaf_def)

lemma GetNumNewlines_ext [simp]:
  "GetNumNewlines st root (ext L s) p node = GetNumNewlines st root s p node"
  by (simp add: GetNumNewlines_alt IsTopLevel_def)

lemma leading_comments_ext:
  "leading_comments p i cs (ext L s) = ext_pre L (leading_comments p i cs s)"
  by (induction cs arbitrary: i s) (auto simp: Let_def split: sum.splits bool.splits)

lemma routine_ext:
  "SetBlankLinesBetweenCommentAndClassFunc st root p node (ext L s)
     = ext_pre L (SetBlankLinesBetweenCommentAndClassFunc st root p node s)"
  by (auto simp: SetBlankLinesBetweenCommentAndClassFunc_def leading_comments_ext
           split: sum.splits list.splits bool.splits)

lemma DefaultNodeVisit_pre_ext:
  "DefaultNodeVisit_pre st root p node (ext L s) = ext_pre L (DefaultNodeVisit_pre st root p node s)"
  by (auto simp: DefaultNodeVisit_pre_def split: sum.splits)

lemma Visit_decorator_pre_ext:
  "Visit_decorator_pre st root p node (ext L s) = ext_pre L (Visit_decorator_pre st root p node s)"
  by (auto simp: Visit_decorator_pre_alt Let_def split: sum.splits list.splits bool.splits)

lemma Visit_classdef_pre_ext:
  "Visit_classdef_pre st root p node (ext L s) = ext_pre L (Visit_classdef_pre st root p node s)"
  by (auto simp: Visit_classdef_pre_def routine_ext split: sum.splits)

lemma Visit_funcdef_pre_ext:
  "Visit_funcdef_pre st root p node (ext L s) = ext_pre L (Visit_funcdef_pre st root p node s)"
  by (auto simp: Visit_funcdef_pre_def routine_ext split: sum.splits option.splits list.splits)

lemma Visit_pre_ext:
  "Visit_pre st root p node (ext L s) = ext_pre L (Visit_pre st root p node s)"
  by (simp add: Visit_pre_def DefaultNodeVisit_pre_ext Visit_decorator_pre_ext
                Visit_classdef_pre_ext Visit_funcdef_pre_ext)

lemma Visit_post_ext:
  "Visit_post p node (ext L s) = map_sum id (ext L) (Visit_post p node s)"
  by (auto simp: Visit_post_def Visit_simple_stmt_post_def Visit_decorator_post_def
                 Visit_classdef_post_def Visit_funcdef_post_def
           split: list.splits pytree.splits token.splits)

lemma Visit_ext:
  "Visit st root p node (ext L s) = map_sum id (ext L) (Visit st root p node s)"
  and VisitChildren_ext:
  "VisitChildren st root p i cs (ext L s) = map_sum id (ext L) (VisitChildren st root p i cs s)"
proof (induction st root p node s and st root p i cs s rule: Visit_VisitChildren.induct)
  case (1 st root p t l c s)
  show ?case by simp
next
  case (2 st root p n cs s)
  show ?case
  proof (cases "Visit_pre st root p (Node n cs) (s\<lparr>visited := p # visited s\<rparr>)")
    case (Inl e)
    then show ?thesis by (simp add: Visit_pre_ext)
  next
    case (Inr r)
    obtain s1 index where r: "r = (s1, index)" by (cases r)
    from "2.IH" [OF Inr [unfolded r] refl]
    have ih: "VisitChildren st root p index (drop index cs) (ext L s1)
       = map_sum id (ext L) (VisitChildren st root p index (drop index cs) s1)" .
    show ?thesis
      using Inr r ih
      by (cases "VisitChildren st root p index (drop index cs) s1")
         (simp_all add: Visit_pre_ext Visit_post_ext id_def)
  qed
next
  case (3 st root p i s)
  show ?case by simp
next
  case (4 st root p i c cs s)
  show ?case
  proof (cases "Visit st root (i # p) c s")
    case (Inl e)
    with "4.IH"(1) show ?thesis by simp
  next
    case (Inr s1)
    with "4.IH"(1) "4.IH"(2) [OF Inr] show ?thesis by simp
  qed
qed


lemma init_ext: "init annots = ext annots (init [])"
  by (simp add: init_def ext_def)

lemma CalculateBlankLines_older:
  "CalculateBlankLines st tree annots
     = map_sum id (\<lambda>w. w @ annots) (CalculateBlankLines st tree [])"
  by (cases "Visit st tree [] tree (init [])")
     (simp_all add: CalculateBlankLines_def walk_def init_ext [of annots] Visit_ext)

lemma annotation_rewritten: "annotation (w @ w @ older) p = annotation (w @ older) p"
  by (simp add: annotation_def map_add_def split: option.splits)

text \<open>
  Claim C8: when a run on a tree ends, a second run on the same tree, with the same
  style and the annotations the first run left, ends too, writes the same annotations
  \<open>w\<close> over them once more, and leaves every node with the annotation it had after the
  first run.
\<close>

theorem C8_idempotence:
  assumes "CalculateBlankLines st tree annots = Inr once"
  shows "\<exists>w. once = w @ annots
           \<and> CalculateBlankLines st tree once = Inr (w @ once)
           \<and> (\<forall>p. annotation (w @ once) p = annotation once p)"
proof -
  from assms obtain w where w: "CalculateBlankLines st tree [] = Inr w" and once: "once = w @ annots"
    by (cases "CalculateBlankLines st tree []")
       (simp_all add: CalculateBlankLines_older [of st tree annots])
  have "CalculateBlankLines st tree once = Inr (w @ once)"
    by (simp add: CalculateBlankLines_older [of st tree once] w)
  moreover have "\<forall>p. annotation (w @ once) p = annotation once p"
    by (simp add: once annotation_rewritten)
  ultimately show ?thesis using once by blast
qed

theorem C8_idempotence_witness:
  "CalculateBlankLines default_style two_functions [([0], Some 7)]
     = Inr [([0, 1], Some 3), ([0, 1], Some 3), ([0, 0], Some 1), ([0, 0], Some 1), ([0], Some 7)]
   \<and> (\<exists>w. [([0, 1], Some 3), ([0, 1], Some 3), ([0, 0], Some 1), ([0, 0], Some 1), ([0], Some 7)]
             = w @ [([0], Some 7)]
          \<and> CalculateBlankLines default_style two_functions
               [([0, 1], Some 3), ([0, 1], Some 3), ([0, 0], Some 1), ([0, 0], Some 1), ([0], Some 7)]
             = Inr (w @ [([0, 1], Some 3), ([0, 1], Some 3), ([0, 0], Some 1), ([0, 0], Some 1),
                         ([0], Some 7)])
          \<and> (\<forall>p. annotation (w @ [([0, 1], Some 3), ([0, 1], Some 3), ([0, 0], Some 1),
                                    ([0, 0], Some 1), ([0], Some 7)]) p
                 = annotation [([0, 1], Some 3), ([0, 1], Some 3), ([0, 0], Some 1),
                               ([0, 0], Some 1), ([0], Some 7)] p))"
proof -
  have run: "CalculateBlankLines default_style two_functions [([0], Some 7)]
     = Inr [([0, 1], Some 3), ([0, 1], Some 3), ([0, 0], Some 1), ([0, 0], Some 1), ([0], Some 7)]"
    by (simp add: two_functions_def default_style_def walk_defs)
  from C8_idempotence [OF run] run show ?thesis by blast
qed



section \<open>The values a walk writes\<close>

lemma values_ok_fields [simp]:
  "values_ok st (s\<lparr>visited := vs\<rparr>) = values_ok st s"
  "values_ok st (s\<lparr>last_was_class_or_function := b\<rparr>) = values_ok st s"
  "values_ok st (s\<lparr>last_was_decorator := b\<rparr>) = values_ok st s"
  "values_ok st (s\<lparr>last_comment_lineno := l\<rparr>) = values_ok st s"
  "values_ok st (s\<lparr>prev_stmt := q\<rparr>) = values_ok st s"
  "values_ok st (s\<lparr>class_level := k\<rparr>) = values_ok st s"
  "values_ok st (s\<lparr>function_level := k\<rparr>) = values_ok st s"
  "values_ok st (Visit_leaf p s) = values_ok st s"
  by (simp_all add: values_ok_def Visit_leaf_def)

lemma values_ok_Set:
  "values_ok st s \<Longrightarrow> v \<in> newline_values st \<Longrightarrow> values_ok st (SetNumNewlines p v s)"
  by (simp add: values_ok_def SetNumNewlines_def)

lemma newline_values_const [simp]:
  "None \<in> newline_values st" "Some NO_BLANK_LINES \<in> newline_values st"
  "Some ONE_BLANK_LINE \<in> newline_values st"
  "Some (max ONE_BLANK_LINE (1 + BLANK_LINES_BETWEEN_CLASS_DEFS st)) \<in> newline_values st"
  by (simp_all add: newline_values_def)

lemma GetNumNewlines_value:
  "GetNumNewlines st root s p node = Inr n \<Longrightarrow> Some n \<in> newline_values st"
  by (auto simp: GetNumNewlines_alt newline_values_def split: if_splits sum.splits bool.splits)

lemma leading_comments_values:
  "values_ok st s \<Longrightarrow> leading_comments p i cs s = Inr (s', k) \<Longrightarrow> values_ok st s'"
proof (induction cs arbitrary: i s)
  case Nil
  then show ?case by simp
next
  case (Cons c cs)
  show ?case
  proof (cases "IsCommentStatement c")
    case (Inl e)
    with Cons.prems show ?thesis by simp
  next
    case (Inr b)
    show ?thesis
    proof (cases b)
      case False
      with Inr Cons.prems show ?thesis by simp
    next
      case True
      let ?s1 = "Visit_leaf (0 # i # p) s"
      let ?s2 = "if \<not> last_was_decorator ?s1
                 then SetNumNewlines (0 # i # p) (Some ONE_BLANK_LINE) ?s1 else ?s1"
      have "values_ok st ?s2" using Cons.prems(1) by (simp add: values_ok_Set)
      moreover have "leading_comments p (Suc i) cs ?s2 = Inr (s', k)"
        using Cons.prems(2) Inr True by (simp add: Let_def)
      ultimately show ?thesis by (rule Cons.IH)
    qed
  qed
qed

lemma routine_values:
  assumes "values_ok st s"
    and "SetBlankLinesBetweenCommentAndClassFunc st root p node s = Inr (s', k)"
  shows "values_ok st s'"
proof -
  from assms(2) obtain s1 index where lc: "leading_comments p 0 (children node) s = Inr (s1, index)"
    by (auto simp: SetBlankLinesBetweenCommentAndClassFunc_def split: sum.splits)
  from leading_comments_values [OF assms(1) lc] have ok1: "values_ok st s1" .
  from assms(2) lc obtain v where "s' = SetNumNewlines (index # p) (Some v) s1"
      and "Some v \<in> newline_values st"
    by (auto simp: SetBlankLinesBetweenCommentAndClassFunc_def
             split: sum.splits list.splits bool.splits if_splits
             dest!: GetNumNewlines_value)
  with ok1 show ?thesis by (simp add: values_ok_Set)
qed

lemma DefaultNodeVisit_pre_values:
  "values_ok st s \<Longrightarrow> DefaultNodeVisit_pre st root p node s = Inr (s', k) \<Longrightarrow> values_ok st s'"
  by (auto simp: DefaultNodeVisit_pre_def
           split: sum.splits if_splits intro!: values_ok_Set dest!: GetNumNewlines_value)

lemma Visit_decorator_pre_values:
  "values_ok st s \<Longrightarrow> Visit_decorator_pre st root p node s = Inr (s', k) \<Longrightarrow> values_ok st s'"
  by (auto simp: Visit_decorator_pre_alt Let_def
           split: sum.splits list.splits bool.splits if_splits
           intro!: values_ok_Set dest!: GetNumNewlines_value)

lemma Visit_classdef_pre_values:
  "values_ok st s \<Longrightarrow> Visit_classdef_pre st root p node s = Inr (s', k) \<Longrightarrow> values_ok st s'"
  by (auto simp: Visit_classdef_pre_def split: sum.splits dest: routine_values [rotated])

lemma Visit_funcdef_pre_values:
  assumes "values_ok st s" and "Visit_funcdef_pre st root p node s = Inr (s', k)"
  shows "values_ok st s'"
proof -
  from assms(2) obtain s1 index0 where
    r1: "SetBlankLinesBetweenCommentAndClassFunc st root p node
           (s\<lparr>last_was_class_or_function := False\<rparr>) = Inr (s1, index0)"
    by (auto simp: Visit_funcdef_pre_def split: sum.splits)
  have ok1: "values_ok st s1" using routine_values [OF _ r1] assms(1) by simp
  show ?thesis
  proof (cases "AsyncFunction root p")
    case True
    with assms(2) r1 obtain par s2 index where
      "SetBlankLinesBetweenCommentAndClassFunc st root (tl p) par s1 = Inr (s2, index)"
      and s': "s' = (SetNumNewlines (0 # p) None s2)
                  \<lparr>last_was_decorator := False, function_level := function_level s2 + 1\<rparr>"
      by (auto simp: Visit_funcdef_pre_def SetNumNewlines_def
               split: sum.splits option.splits list.splits)
    from routine_values [OF ok1 this(1)] have "values_ok st s2" .
    then show ?thesis by (simp add: s' values_ok_Set)
  next
    case False
    with assms(2) r1 obtain s3 where
      "SetBlankLinesBetweenCommentAndClassFunc st root p node s1 = Inr (s3, k)"
      and s': "s' = s3\<lparr>last_was_decorator := False, function_level := function_level s3 + 1\<rparr>"
      by (auto simp: Visit_funcdef_pre_def split: sum.splits)
    from routine_values [OF ok1 this(1)] have "values_ok st s3" .
    then show ?thesis by (simp add: s')
  qed
qed

lemma Visit_pre_values:
  "values_ok st s \<Longrightarrow> Visit_pre st root p node s = Inr (s', k) \<Longrightarrow> values_ok st s'"
  by (auto simp: Visit_pre_def split: if_splits
           dest: DefaultNodeVisit_pre_values Visit_decorator_pre_values
                 Visit_classdef_pre_values Visit_funcdef_pre_values)

lemma Visit_post_values:
  "values_ok st s \<Longrightarrow> Visit_post p node s = Inr s' \<Longrightarrow> values_ok st s'"
  by (auto simp: Visit_post_def Visit_simple_stmt_post_def Visit_decorator_post_def
                 Visit_classdef_post_def Visit_funcdef_post_def
           split: if_splits list.splits pytree.splits token.splits)

lemma Visit_values:
  "values_ok st s \<Longrightarrow> Visit st root p node s = Inr s' \<Longrightarrow> values_ok st s'"
  and VisitChildren_values:
  "values_ok st s \<Longrightarrow> VisitChildren st root p i cs s = Inr s' \<Longrightarrow> values_ok st s'"
proof (induction st root p node s and st root p i cs s arbitrary: s' and s'
       rule: Visit_VisitChildren.induct)
  case (1 st root p t l c s)
  then show ?case by auto
next
  case (2 st root p n cs s)
  from "2.prems"(2) obtain s1 index s2 where
    pre: "Visit_pre st root p (Node n cs) (s\<lparr>visited := p # visited s\<rparr>) = Inr (s1, index)"
    and kids: "VisitChildren st root p index (drop index cs) s1 = Inr s2"
    and post: "Visit_post p (Node n cs) s2 = Inr s'"
    by (auto split: sum.splits)
  have "values_ok st s1" using Visit_pre_values [OF _ pre] "2.prems"(1) by simp
  from "2.IH" [OF pre refl this kids] have "values_ok st s2" .
  from Visit_post_values [OF this post] show ?case .
next
  case (3 st root p i s)
  then show ?case by simp
next
  case (4 st root p i c cs s)
  from "4.prems"(2) obtain s1 where
    first: "Visit st root (i # p) c s = Inr s1"
    and rest: "VisitChildren st root p (Suc i) cs s1 = Inr s'"
    by (auto split: sum.splits)
  from "4.IH"(1) [OF "4.prems"(1) first] have "values_ok st s1" .
  from "4.IH"(2) [OF first this rest] show ?case .
qed



lemma CalculateBlankLines_values:
  assumes "CalculateBlankLines st tree [] = Inr w"
  shows "snd ` set w \<subseteq> newline_values st"
proof -
  from assms obtain s' where run: "Visit st tree [] tree (init []) = Inr s'" and w: "w = newlines s'"
    by (auto simp: CalculateBlankLines_def walk_def split: sum.splits)
  have "values_ok st (init [])" by (simp add: values_ok_def init_def)
  from Visit_values [OF this run] show ?thesis by (simp add: values_ok_def w)
qed

lemma newline_values_small:
  assumes "BLANK_LINES_AROUND_TOP_LEVEL_DEFINITION st \<in> {0, 1, 2}"
    and "BLANK_LINES_BETWEEN_CLASS_DEFS st \<le> 2"
  shows "newline_values st \<subseteq> {None, Some 1, Some 2, Some 3}"
  using assms by (auto simp: newline_values_def NO_BLANK_LINES_def ONE_BLANK_LINE_def max_def)

text \<open>
  Claim C4, as stated, at the style value 3 for top-level definitions: the keyword of the
  second of two top-level functions ends with the annotation 4, which is not in
  \<open>{1, 2, 3}\<close>.
\<close>

theorem C4_counterexample:
  "result_annotation
     (CalculateBlankLines
        \<lparr>BLANK_LINES_AROUND_TOP_LEVEL_DEFINITION = 3, BLANK_LINES_BETWEEN_CLASS_DEFS = 0\<rparr>
        two_functions []) [0, 1] = Some 4
   \<and> Some (4 :: int) \<notin> {None, Some 1, Some 2, Some 3}"
  by (simp add: two_functions_def walk_defs)

text \<open>
  Claim C4, amended: for every tree, style and earlier annotations, every value a run
  writes is \<^verbatim>\<open>None\<close>, 1, 2, \<open>1 + BLANK_LINES_AROUND_TOP_LEVEL_DEFINITION\<close> or
  \<open>max 2 (1 + BLANK_LINES_BETWEEN_CLASS_DEFS)\<close>; so every value written is \<^verbatim>\<open>None\<close> or one
  of 1, 2, 3 when the first option is 0, 1 or 2 and the second is at most 2.
\<close>

theorem C4_annotation_values:
  assumes "CalculateBlankLines st tree annots = Inr store"
  shows "\<exists>w. store = w @ annots
           \<and> snd ` set w \<subseteq> {None, Some 1, Some 2,
                                Some (1 + BLANK_LINES_AROUND_TOP_LEVEL_DEFINITION st),
                                Some (max 2 (1 + BLANK_LINES_BETWEEN_CLASS_DEFS st))}
           \<and> (BLANK_LINES_AROUND_TOP_LEVEL_DEFINITION st \<in> {0, 1, 2}
                \<and> BLANK_LINES_BETWEEN_CLASS_DEFS st \<le> 2
              \<longrightarrow> snd ` set w \<subseteq> {None, Some 1, Some 2, Some 3})"
proof -
  from assms obtain w where w: "CalculateBlankLines st tree [] = Inr w" and store: "store = w @ annots"
    by (cases "CalculateBlankLines st tree []")
       (simp_all add: CalculateBlankLines_older [of st tree annots])
  from CalculateBlankLines_values [OF w] have vals: "snd ` set w \<subseteq> newline_values st" .
  have eq: "newline_values st = {None, Some 1, Some 2,
                                Some (1 + BLANK_LINES_AROUND_TOP_LEVEL_DEFINITION st),
                                Some (max 2 (1 + BLANK_LINES_BETWEEN_CLASS_DEFS st))}"
    by (simp only: newline_values_def NO_BLANK_LINES_def ONE_BLANK_LINE_def)
  have general: "snd ` set w \<subseteq> {None, Some 1, Some 2,
                                Some (1 + BLANK_LINES_AROUND_TOP_LEVEL_DEFINITION st),
                                Some (max 2 (1 + BLANK_LINES_BETWEEN_CLASS_DEFS st))}"
    using vals unfolding eq .
  have small: "BLANK_LINES_AROUND_TOP_LEVEL_DEFINITION st \<in> {0, 1, 2}
                \<and> BLANK_LINES_BETWEEN_CLASS_DEFS st \<le> 2
              \<longrightarrow> snd ` set w \<subseteq> {None, Some 1, Some 2, Some 3}"
  proof
    assume "BLANK_LINES_AROUND_TOP_LEVEL_DEFINITION st \<in> {0, 1, 2}
                \<and> BLANK_LINES_BETWEEN_CLASS_DEFS st \<le> 2"
    then have "newline_values st \<subseteq> {None, Some 1, Some 2, Some 3}"
      using newline_values_small [of st] by (elim conjE)
    with vals show "snd ` set w \<subseteq> {None, Some 1, Some 2, Some 3}" by (rule subset_trans)
  qed
  from store general small show ?thesis by (intro exI conjI)
qed

theorem C4_annotation_values_witness:
  "CalculateBlankLines default_style two_methods [([0], Some 7)]
     = Inr [([0, 3, 3, 0], Some 2), ([0, 3, 3, 0], Some 2), ([0, 2, 3, 0], Some 1),
            ([0, 2, 3, 0], Some 1), ([0, 0], Some 1), ([0], Some 7)]
   \<and> BLANK_LINES_AROUND_TOP_LEVEL_DEFINITION default_style \<in> {0, 1, 2}
   \<and> BLANK_LINES_BETWEEN_CLASS_DEFS default_style \<le> 2
   \<and> (\<exists>w :: (path \<times> int option) list.
          [([0, 3, 3, 0], Some 2), ([0, 3, 3, 0], Some 2), ([0, 2, 3, 0], Some 1),
            ([0, 2, 3, 0], Some 1), ([0, 0], Some 1), ([0], Some 7)] = w @ [([0], Some 7)]
          \<and> snd ` set w \<subseteq> {None, Some 1, Some 2, Some 3})"
proof -
  have run: "CalculateBlankLines default_style two_methods [([0], Some 7)]
     = Inr [([0, 3, 3, 0], Some 2), ([0, 3, 3, 0], Some 2), ([0, 2, 3, 0], Some 1),
            ([0, 2, 3, 0], Some 1), ([0, 0], Some 1), ([0], Some 7)]"
    by (simp add: two_methods_def default_style_def walk_defs)
  have small: "BLANK_LINES_AROUND_TOP_LEVEL_DEFINITION default_style \<in> {0, 1, 2}
      \<and> BLANK_LINES_BETWEEN_CLASS_DEFS default_style \<le> 2"
    by (simp add: default_style_def)
  let ?once = "[([0, 3, 3, 0], Some 2), ([0, 3, 3, 0], Some 2), ([0, 2, 3, 0], Some 1),
            ([0, 2, 3, 0], Some 1), ([0, 0], Some 1), ([0], Some 7)] :: (path \<times> int option) list"
  from C4_annotation_values [OF run] show ?thesis
  proof (elim exE conjE)
    fix w :: "(path \<times> int option) list"
    assume w: "?once = w @ [([0], Some 7)]"
      and imp: "BLANK_LINES_AROUND_TOP_LEVEL_DEFINITION default_style \<in> {0, 1, 2}
                \<and> BLANK_LINES_BETWEEN_CLASS_DEFS default_style \<le> 2
              \<longrightarrow> snd ` set w \<subseteq> {None, Some 1, Some 2, Some 3}"
    from imp small have "snd ` set w \<subseteq> {None, Some 1, Some 2, Some 3}" by (rule mp)
    with w have ex: "\<exists>w. ?once = w @ [([0], Some 7)]
          \<and> snd ` set w \<subseteq> {None, Some 1, Some 2, Some 3}"
      by (intro exI conjI)
    from run small ex show ?thesis by (elim conjE, intro conjI)
  qed
qed


section \<open>Visits of a node\<close>

text \<open>
  Claim C3 at \<open>commented_function\<close>, a function definition that is not \<^verbatim>\<open>async\<close> and
  has one leading comment: the comment token, at position \<open>[0, 0, 1]\<close>, is visited twice
  in one run, because \<^verbatim>\<open>Visit_funcdef\<close> calls the placement routine on the node twice.
  In \<open>commented_class\<close>, the same file with a class, \<^verbatim>\<open>Visit_classdef\<close> calls the routine
  once and every node is visited once.
\<close>

theorem C3_comment_visited_twice:
  "count_list (visits (walk default_style commented_function [])) [0, 0, 1] = 2
   \<and> \<not> distinct (visits (walk default_style commented_function []))
   \<and> count_list (visits (walk default_style commented_class [])) [0, 0, 1] = 1
   \<and> distinct (visits (walk default_style commented_class []))"
  by (simp add: commented_function_def commented_class_def default_style_def visits_def walk_defs)

section \<open>Async functions\<close>

lemma annotation_Set:
  "annotation (newlines (SetNumNewlines q v s)) d
     = (if q = d then v else annotation (newlines s) d)"
  by (simp add: SetNumNewlines_def annotation_def)

lemma annotation_Cons:
  "annotation ((q, v) # ws) d = (if q = d then v else annotation ws d)"
  by (simp add: annotation_def)

lemma annotation_fields [simp]:
  "newlines (Visit_leaf q s) = newlines s"
  by (simp add: Visit_leaf_def)

lemma AsyncFunction_iff:
  "AsyncFunction root p \<longleftrightarrow> (\<exists>x. prev_sibling root p = Some x \<and> is_async x)"
  by (auto simp: AsyncFunction_def is_async_def split: option.splits pytree.splits token.splits)

lemma async_funcdefD:
  assumes "async_funcdef root p"
  obtains i q t l c rest where "p = Suc i # q"
    and "get_node root p = Some (Node ''funcdef'' (Leaf t l c # rest))"
    and "\<forall>x \<in> set (Leaf t l c # rest). \<not> is_async x"
proof -
  from assms have a: "AsyncFunction root p" by (simp add: async_funcdef_def)
  then obtain i q where p: "p = Suc i # q"
    by (cases p) (auto simp: AsyncFunction_def gr0_conv_Suc split: if_splits)
  from assms have shape: "case get_node root p of
        Some (Node n (Leaf t l c # rest)) \<Rightarrow>
          n = ''funcdef'' \<and> \<not> is_async (Leaf t l c) \<and> (\<forall>x \<in> set rest. \<not> is_async x)
      | _ \<Rightarrow> False"
    by (simp add: async_funcdef_def)
  then obtain nd where nd: "get_node root p = Some nd" by (cases "get_node root p") auto
  with shape obtain n cs where node: "nd = Node n cs" by (cases nd) auto
  with shape nd obtain x rest where cs: "cs = x # rest" by (cases cs) auto
  with shape nd node obtain t l c where x: "x = Leaf t l c" by (cases x) auto
  from shape nd node cs x have "n = ''funcdef''" "\<not> is_async (Leaf t l c)"
    "\<forall>x \<in> set rest. \<not> is_async x" by simp_all
  then have "get_node root p = Some (Node ''funcdef'' (Leaf t l c # rest))"
    "\<forall>x \<in> set (Leaf t l c # rest). \<not> is_async x"
    using nd node cs x by simp_all
  with p show ?thesis by (rule that)
qed

lemma leading_comments_keeps:
  assumes "leading_comments r i cs s = Inr (s', k)"
    and "\<forall>j < length cs. IsCommentStatement (cs ! j) = Inr True \<longrightarrow> (i + j) # r \<noteq> p0"
  shows "annotation (newlines s') (0 # p0) = annotation (newlines s) (0 # p0)"
  using assms
proof (induction cs arbitrary: i s)
  case Nil
  then show ?case by simp
next
  case (Cons c cs)
  show ?case
  proof (cases "IsCommentStatement c")
    case (Inl e)
    with Cons.prems show ?thesis by simp
  next
    case (Inr b)
    show ?thesis
    proof (cases b)
      case False
      with Inr Cons.prems show ?thesis by simp
    next
      case True
      let ?s1 = "Visit_leaf (0 # i # r) s"
      let ?s2 = "if \<not> last_was_decorator ?s1
                 then SetNumNewlines (0 # i # r) (Some ONE_BLANK_LINE) ?s1 else ?s1"
      from Cons.prems(2) [rule_format, of 0] Inr True have ne: "i # r \<noteq> p0" by simp
      have step: "annotation (newlines ?s2) (0 # p0) = annotation (newlines s) (0 # p0)"
        using ne by (simp add: annotation_Set)
      have run: "leading_comments r (Suc i) cs ?s2 = Inr (s', k)"
        using Cons.prems(1) Inr True by (simp add: Let_def)
      have rest: "\<forall>j < length cs. IsCommentStatement (cs ! j) = Inr True
                    \<longrightarrow> (Suc i + j) # r \<noteq> p0"
        using Cons.prems(2) by auto
      from Cons.IH [OF run rest] step show ?thesis by simp
    qed
  qed
qed

lemma routine_keeps:
  assumes run: "SetBlankLinesBetweenCommentAndClassFunc st root r node s = Inr (s', k)"
    and node: "get_node root r = Some node"
    and target: "get_node root p0 = Some (Node ''funcdef'' kids)"
    and ne: "r \<noteq> p0"
  shows "annotation (newlines s') (0 # p0) = annotation (newlines s) (0 # p0)"
proof -
  from run obtain s1 index where
    lc: "leading_comments r 0 (children node) s = Inr (s1, index)"
    by (auto simp: SetBlankLinesBetweenCommentAndClassFunc_def split: sum.splits)
  have "\<forall>j < length (children node).
          IsCommentStatement (children node ! j) = Inr True \<longrightarrow> (0 + j) # r \<noteq> p0"
  proof (intro allI impI notI)
    fix j
    assume j: "j < length (children node)"
      and com: "IsCommentStatement (children node ! j) = Inr True"
      and eq: "(0 + j) # r = p0"
    from eq node j have "get_node root p0 = Some (children node ! j)" by auto
    with target com show False by simp
  qed
  from leading_comments_keeps [OF lc this]
  have one: "annotation (newlines s1) (0 # p0) = annotation (newlines s) (0 # p0)" .
  from run lc obtain v where "s' = SetNumNewlines (index # r) (Some v) s1"
    by (auto simp: SetBlankLinesBetweenCommentAndClassFunc_def
             split: sum.splits list.splits bool.splits if_splits)
  with ne one show ?thesis by (simp add: annotation_Set)
qed

lemma FirstLeafNode_path:
  "FirstLeafNode r node = Inr (lp, leaf) \<Longrightarrow>
     \<exists>k. lp = replicate k 0 @ r \<and> (k = 0 \<longrightarrow> (\<exists>t l c. node = Leaf t l c))"
proof (induction r node rule: FirstLeafNode.induct)
  case (1 p t l c)
  then have "lp = replicate 0 0 @ p" by simp
  then show ?case by blast
next
  case (2 p n)
  then show ?case by simp
next
  case (3 p n c cs)
  then obtain k where "lp = replicate k 0 @ (0 # p)" by auto
  then have "lp = replicate (Suc k) 0 @ p" by (simp add: replicate_app_Cons_same)
  then show ?case by blast
qed


lemma statement_names:
  "''funcdef'' \<notin> set PYTHON_STATEMENTS" "''COMMENT'' \<notin> set PYTHON_STATEMENTS"
  "''ASYNC'' \<notin> set PYTHON_STATEMENTS" "''TOKEN'' \<notin> set PYTHON_STATEMENTS"
  by (simp_all add: PYTHON_STATEMENTS_def)

lemma leaf_not_statement: "NodeName (Leaf t l c) \<notin> set PYTHON_STATEMENTS"
  by (cases t) (simp_all add: statement_names)

lemma DefaultNodeVisit_pre_keeps:
  assumes run: "DefaultNodeVisit_pre st root r node s = Inr (s', k)"
    and node: "get_node root r = Some node"
    and target: "get_node root (Suc i # q) = Some (Node ''funcdef'' (Leaf t l c # rest))"
  shows "annotation (newlines s') (0 # Suc i # q) = annotation (newlines s) (0 # Suc i # q)"
proof (cases "last_was_class_or_function s \<and> NodeName node \<in> set PYTHON_STATEMENTS")
  case False
  with run show ?thesis by (auto simp: DefaultNodeVisit_pre_def)
next
  case True
  with run obtain lp leaf v where
    first: "FirstLeafNode r node = Inr (lp, leaf)"
    and s': "s' = (SetNumNewlines lp (Some v) s)\<lparr>last_was_class_or_function := False\<rparr>"
    by (auto simp: DefaultNodeVisit_pre_def split: sum.splits)
  from FirstLeafNode_path [OF first] obtain m where
    lp: "lp = replicate m 0 @ r" and leaf: "m = 0 \<longrightarrow> (\<exists>t l c. node = Leaf t l c)" by blast
  have "lp \<noteq> 0 # Suc i # q"
  proof
    assume eq: "lp = 0 # Suc i # q"
    show False
    proof (cases m)
      case 0
      with leaf True show False by (auto simp: leaf_not_statement)
    next
      case (Suc m')
      note m = Suc
      show False
      proof (cases m')
        case 0
        with m lp eq have "r = Suc i # q" by simp
        with node target True show False by (simp add: statement_names)
      next
        case (Suc m'')
        with m lp eq show False by simp
      qed
    qed
  qed
  then show ?thesis by (simp add: s' annotation_Cons SetNumNewlines_def)
qed

lemma Visit_decorator_pre_keeps:
  assumes run: "Visit_decorator_pre st root r node s = Inr (s', k)"
    and ne: "r \<noteq> p0"
  shows "annotation (newlines s') (0 # p0) = annotation (newlines s) (0 # p0)"
proof -
  from run obtain v where "s' = SetNumNewlines (0 # r) v s"
    by (auto simp: Visit_decorator_pre_alt Let_def
             split: sum.splits list.splits bool.splits if_splits)
  with ne show ?thesis by (simp add: annotation_Set)
qed

lemma Visit_classdef_pre_keeps:
  assumes run: "Visit_classdef_pre st root r node s = Inr (s', k)"
    and node: "get_node root r = Some node"
    and target: "get_node root p0 = Some (Node ''funcdef'' kids)"
    and ne: "r \<noteq> p0"
  shows "annotation (newlines s') (0 # p0) = annotation (newlines s) (0 # p0)"
proof -
  from run obtain s1 where
    r1: "SetBlankLinesBetweenCommentAndClassFunc st root r node
           (s\<lparr>last_was_class_or_function := False\<rparr>) = Inr (s1, k)"
    and s': "s' = s1\<lparr>last_was_decorator := False, class_level := class_level s1 + 1\<rparr>"
    by (auto simp: Visit_classdef_pre_def split: sum.splits)
  from routine_keeps [OF r1 node target ne] show ?thesis by (simp add: s')
qed

lemma child_not_async:
  assumes target: "get_node root p0 = Some (Node ''funcdef'' kids)"
    and kids: "\<forall>x \<in> set kids. \<not> is_async x"
  shows "\<not> AsyncFunction root (j # p0)"
proof
  assume "AsyncFunction root (j # p0)"
  then obtain x where x: "prev_sibling root (j # p0) = Some x" and a: "is_async x"
    by (auto simp: AsyncFunction_iff)
  from x target have "x \<in> set kids" by (auto split: if_splits)
  with kids a show False by simp
qed

lemma Visit_funcdef_pre_keeps:
  assumes run: "Visit_funcdef_pre st root r node s = Inr (s', k)"
    and node: "get_node root r = Some node"
    and target: "get_node root p0 = Some (Node ''funcdef'' kids)"
    and kids: "\<forall>x \<in> set kids. \<not> is_async x"
    and ne: "r \<noteq> p0"
  shows "annotation (newlines s') (0 # p0) = annotation (newlines s) (0 # p0)"
proof -
  from run obtain s1 index0 where
    r1: "SetBlankLinesBetweenCommentAndClassFunc st root r node
           (s\<lparr>last_was_class_or_function := False\<rparr>) = Inr (s1, index0)"
    by (auto simp: Visit_funcdef_pre_def split: sum.splits)
  from routine_keeps [OF r1 node target ne]
  have one: "annotation (newlines s1) (0 # p0) = annotation (newlines s) (0 # p0)" by simp
  show ?thesis
  proof (cases "AsyncFunction root r")
    case True
    with run r1 obtain par s2 index where
      par: "get_node root (tl r) = Some par"
      and r2: "SetBlankLinesBetweenCommentAndClassFunc st root (tl r) par s1 = Inr (s2, index)"
      and s': "s' = (SetNumNewlines (0 # r) None s2)
                  \<lparr>last_was_decorator := False, function_level := function_level s2 + 1\<rparr>"
      by (auto simp: Visit_funcdef_pre_def SetNumNewlines_def
               split: sum.splits option.splits list.splits)
    have "tl r \<noteq> p0"
    proof
      assume eq: "tl r = p0"
      from True obtain j where "r = j # tl r"
        by (cases r) (auto simp: AsyncFunction_def)
      with eq True child_not_async [OF target kids, of j] show False by simp
    qed
    from routine_keeps [OF r2 par target this] one ne show ?thesis
      by (simp add: s' annotation_Cons SetNumNewlines_def)
  next
    case False
    with run r1 obtain s3 where
      r2: "SetBlankLinesBetweenCommentAndClassFunc st root r node s1 = Inr (s3, k)"
      and s': "s' = s3\<lparr>last_was_decorator := False, function_level := function_level s3 + 1\<rparr>"
      by (auto simp: Visit_funcdef_pre_def split: sum.splits)
    from routine_keeps [OF r2 node target ne] one show ?thesis by (simp add: s')
  qed
qed

lemma Visit_funcdef_pre_async:
  assumes run: "Visit_funcdef_pre st root p node s = Inr (s', index)"
    and async: "AsyncFunction root p"
  shows "\<exists>par s1 s2 index0.
           get_node root (tl p) = Some par
           \<and> SetBlankLinesBetweenCommentAndClassFunc st root p node
               (s\<lparr>last_was_class_or_function := False\<rparr>) = Inr (s1, index0)
           \<and> SetBlankLinesBetweenCommentAndClassFunc st root (tl p) par s1 = Inr (s2, index)
           \<and> s' = (SetNumNewlines (0 # p) None s2)
                  \<lparr>last_was_decorator := False, function_level := function_level s2 + 1\<rparr>"
  using assms
  by (auto simp: Visit_funcdef_pre_def SetNumNewlines_def
           split: sum.splits option.splits list.splits)


lemma Visit_post_newlines: "Visit_post p node s = Inr s' \<Longrightarrow> newlines s' = newlines s"
  by (auto simp: Visit_post_def Visit_simple_stmt_post_def Visit_decorator_post_def
                 Visit_classdef_post_def Visit_funcdef_post_def
           split: if_splits list.splits pytree.splits token.splits)

lemma Visit_pre_keeps:
  assumes run: "Visit_pre st root r node s = Inr (s', k)"
    and node: "get_node root r = Some node"
    and target: "async_funcdef root p0"
    and before: "annotation (newlines s) (0 # p0) = None"
  shows "annotation (newlines s') (0 # p0) = None"
proof -
  from target obtain i q t l c rest where p0: "p0 = Suc i # q"
    and fd: "get_node root p0 = Some (Node ''funcdef'' (Leaf t l c # rest))"
    and kids: "\<forall>x \<in> set (Leaf t l c # rest). \<not> is_async x"
    by (rule async_funcdefD)
  from target have async: "AsyncFunction root p0" by (simp add: async_funcdef_def)
  have other: "r \<noteq> p0" if "NodeName node \<noteq> ''funcdef''"
    using that node fd by auto
  consider (default) "Visit_pre st root r node s = DefaultNodeVisit_pre st root r node s"
    | (decorator) "NodeName node = ''decorator''"
        "Visit_pre st root r node s = Visit_decorator_pre st root r node s"
    | (classdef) "NodeName node = ''classdef''"
        "Visit_pre st root r node s = Visit_classdef_pre st root r node s"
    | (funcdef) "Visit_pre st root r node s = Visit_funcdef_pre st root r node s"
    by (cases "NodeName node = ''simple_stmt''"; cases "NodeName node = ''decorator''";
        cases "NodeName node = ''classdef''"; cases "NodeName node = ''funcdef''")
       (simp_all add: Visit_pre_def)
  then show ?thesis
  proof cases
    case default
    with run have "DefaultNodeVisit_pre st root r node s = Inr (s', k)" by simp
    from DefaultNodeVisit_pre_keeps [OF this node fd [unfolded p0]] before show ?thesis
      by (simp add: p0)
  next
    case decorator
    with run have "Visit_decorator_pre st root r node s = Inr (s', k)" by simp
    from Visit_decorator_pre_keeps [OF this other] decorator(1) before show ?thesis by simp
  next
    case classdef
    with run have "Visit_classdef_pre st root r node s = Inr (s', k)" by simp
    from Visit_classdef_pre_keeps [OF this node fd other] classdef(1) before show ?thesis
      by simp
  next
    case funcdef
    with run have pre: "Visit_funcdef_pre st root r node s = Inr (s', k)" by simp
    show ?thesis
    proof (cases "r = p0")
      case True
      from Visit_funcdef_pre_async [OF pre async [folded True]] True show ?thesis
        by (auto simp: annotation_Cons SetNumNewlines_def)
    next
      case False
      from Visit_funcdef_pre_keeps [OF pre node fd kids False] before show ?thesis by simp
    qed
  qed
qed

lemma Visit_keeps:
  "get_node root p = Some node \<Longrightarrow> async_funcdef root p0
     \<Longrightarrow> annotation (newlines s) (0 # p0) = None
     \<Longrightarrow> Visit st root p node s = Inr s' \<Longrightarrow> annotation (newlines s') (0 # p0) = None"
  and VisitChildren_keeps:
  "\<forall>j < length cs. get_node root ((i + j) # p) = Some (cs ! j) \<Longrightarrow> async_funcdef root p0
     \<Longrightarrow> annotation (newlines s) (0 # p0) = None
     \<Longrightarrow> VisitChildren st root p i cs s = Inr s' \<Longrightarrow> annotation (newlines s') (0 # p0) = None"
proof (induction st root p node s and st root p i cs s arbitrary: s' and s'
       rule: Visit_VisitChildren.induct)
  case (1 st root p t l c s)
  then show ?case by auto
next
  case (2 st root p n cs s)
  from "2.prems"(4) obtain s1 index s2 where
    pre: "Visit_pre st root p (Node n cs) (s\<lparr>visited := p # visited s\<rparr>) = Inr (s1, index)"
    and kids: "VisitChildren st root p index (drop index cs) s1 = Inr s2"
    and post: "Visit_post p (Node n cs) s2 = Inr s'"
    by (auto split: sum.splits)
  have one: "annotation (newlines s1) (0 # p0) = None"
    using Visit_pre_keeps [OF pre "2.prems"(1) "2.prems"(2)] "2.prems"(3) by simp
  have sub: "\<forall>j < length (drop index cs). get_node root ((index + j) # p) = Some (drop index cs ! j)"
    using "2.prems"(1) by auto
  from "2.IH" [OF pre refl sub "2.prems"(2) one kids]
  have "annotation (newlines s2) (0 # p0) = None" .
  with Visit_post_newlines [OF post] show ?case by simp
next
  case (3 st root p i s)
  then show ?case by simp
next
  case (4 st root p i c cs s)
  from "4.prems"(4) obtain s1 where
    first: "Visit st root (i # p) c s = Inr s1"
    and rest: "VisitChildren st root p (Suc i) cs s1 = Inr s'"
    by (auto split: sum.splits)
  from "4.prems"(1) [rule_format, of 0] have c: "get_node root (i # p) = Some c" by simp
  from "4.IH"(1) [OF c "4.prems"(2) "4.prems"(3) first]
  have one: "annotation (newlines s1) (0 # p0) = None" .
  have sub: "\<forall>j < length cs. get_node root ((Suc i + j) # p) = Some (cs ! j)"
  proof (intro allI impI)
    fix j assume "j < length cs"
    with "4.prems"(1) [rule_format, of "Suc j"] show "get_node root ((Suc i + j) # p) = Some (cs ! j)"
      by simp
  qed
  from "4.IH"(2) [OF first sub "4.prems"(2) one rest] show ?case .
qed

lemma CalculateBlankLines_keeps:
  assumes "async_funcdef root p" and "annotation annots (0 # p) = None"
    and "CalculateBlankLines st root annots = Inr store"
  shows "annotation store (0 # p) = None"
proof -
  from assms(3) obtain s' where run: "Visit st root [] root (init annots) = Inr s'"
    and store: "store = newlines s'"
    by (auto simp: CalculateBlankLines_def walk_def split: sum.splits)
  have "get_node root [] = Some root" by simp
  from Visit_keeps [OF this assms(1) _ run] assms(2) show ?thesis
    by (simp add: store init_def)
qed

lemma routine_writes_index:
  assumes "SetBlankLinesBetweenCommentAndClassFunc st root r node s = Inr (s', k)"
  shows "\<exists>v. annotation (newlines s') (k # r) = Some v"
proof -
  from assms obtain s1 index where
    lc: "leading_comments r 0 (children node) s = Inr (s1, index)"
    by (auto simp: SetBlankLinesBetweenCommentAndClassFunc_def split: sum.splits)
  from assms lc obtain v where "s' = SetNumNewlines (k # r) (Some v) s1"
    by (auto simp: SetBlankLinesBetweenCommentAndClassFunc_def
             split: sum.splits list.splits bool.splits if_splits)
  then show ?thesis by (simp add: annotation_Set)
qed

text \<open>
  For an \<^verbatim>\<open>async\<close> function definition whose first child is its keyword (and that has
  no \<^verbatim>\<open>async\<close> token among its own children), \<^verbatim>\<open>Visit_funcdef\<close> applies the placement
  routine to the parent of the \<^verbatim>\<open>async\<close> keyword, which leaves an annotation on the first
  child of the parent that is not a comment, and then sets the annotation of the function
  keyword to \<^verbatim>\<open>None\<close>; and when the keyword had no annotation before the run, it has
  none when the run ends.
\<close>

lemma async_keyword_folded:
  assumes "async_funcdef root p"
  shows "(Visit_funcdef_pre st root p node s = Inr (s', index)
          \<longrightarrow> (\<exists>par s1 s2 index0 v.
                 get_node root (tl p) = Some par
                 \<and> SetBlankLinesBetweenCommentAndClassFunc st root p node
                     (s\<lparr>last_was_class_or_function := False\<rparr>) = Inr (s1, index0)
                 \<and> SetBlankLinesBetweenCommentAndClassFunc st root (tl p) par s1 = Inr (s2, index)
                 \<and> annotation (newlines s') (index # tl p) = Some v
                 \<and> annotation (newlines s') (0 # p) = None))
       \<and> (annotation annots (0 # p) = None \<and> CalculateBlankLines st root annots = Inr store
          \<longrightarrow> annotation store (0 # p) = None)"
proof (intro conjI impI)
  assume pre: "Visit_funcdef_pre st root p node s = Inr (s', index)"
  from assms have async: "AsyncFunction root p" by (simp add: async_funcdef_def)
  from Visit_funcdef_pre_async [OF pre async] obtain par s1 s2 index0 where
    par: "get_node root (tl p) = Some par"
    and r1: "SetBlankLinesBetweenCommentAndClassFunc st root p node
               (s\<lparr>last_was_class_or_function := False\<rparr>) = Inr (s1, index0)"
    and r2: "SetBlankLinesBetweenCommentAndClassFunc st root (tl p) par s1 = Inr (s2, index)"
    and s': "s' = (SetNumNewlines (0 # p) None s2)
                  \<lparr>last_was_decorator := False, function_level := function_level s2 + 1\<rparr>"
    by blast
  from routine_writes_index [OF r2] obtain v where
    v: "annotation (newlines s2) (index # tl p) = Some v" by blast
  from async obtain i q where p: "p = i # q" by (cases p) (auto simp: AsyncFunction_def)
  have "annotation (newlines s') (index # tl p) = Some v"
    using v by (simp add: s' p SetNumNewlines_def annotation_Cons)
  moreover have "annotation (newlines s') (0 # p) = None"
    by (simp add: s' SetNumNewlines_def annotation_Cons)
  ultimately show "\<exists>par s1 s2 index0 v.
                 get_node root (tl p) = Some par
                 \<and> SetBlankLinesBetweenCommentAndClassFunc st root p node
                     (s\<lparr>last_was_class_or_function := False\<rparr>) = Inr (s1, index0)
                 \<and> SetBlankLinesBetweenCommentAndClassFunc st root (tl p) par s1 = Inr (s2, index)
                 \<and> annotation (newlines s') (index # tl p) = Some v
                 \<and> annotation (newlines s') (0 # p) = None"
    using par r1 r2 by blast
next
  assume h: "annotation annots (0 # p) = None \<and> CalculateBlankLines st root annots = Inr store"
  from h have before: "annotation annots (0 # p) = None" by (rule conjunct1)
  from h have run: "CalculateBlankLines st root annots = Inr store" by (rule conjunct2)
  from CalculateBlankLines_keeps [OF assms before run]
  show "annotation store (0 # p) = None" .
qed

lemma async_keyword_folded_example:
  "async_funcdef async_function [1, 1]
   \<and> Visit_funcdef_pre default_style async_function [1, 1]
        (children (children async_function ! 1) ! 1) (init []) = Inr (async_entered, 0)
   \<and> annotation (newlines async_entered) (0 # tl [1, 1]) = Some 3
   \<and> annotation (newlines async_entered) [0, 1, 1] = None
   \<and> annotation [] [0, 1, 1] = None
   \<and> CalculateBlankLines default_style async_function []
       = Inr [([0, 1, 1], None), ([0, 1], Some 3), ([0, 1, 1], Some 3)]
   \<and> annotation [([0, 1, 1], None), ([0, 1], Some 3), ([0, 1, 1], Some 3)] [0, 1, 1] = None"
proof -
  have a: "async_funcdef async_function [1, 1]"
    by (simp add: async_funcdef_def async_function_def AsyncFunction_def is_async_def)
  have pre: "Visit_funcdef_pre default_style async_function [1, 1]
        (children (children async_function ! 1) ! 1) (init []) = Inr (async_entered, 0)"
    by (simp add: async_function_def async_entered_def default_style_def walk_defs)
  have run: "CalculateBlankLines default_style async_function []
       = Inr [([0, 1, 1], None), ([0, 1], Some 3), ([0, 1, 1], Some 3)]"
    by (simp add: async_function_def default_style_def walk_defs)
  have none: "annotation [] [0, 1, 1] = None" by (simp add: annotation_def)
  note c = async_keyword_folded [OF a, of default_style "children (children async_function ! 1) ! 1"
              "init []" async_entered 0 "[]" "[([0, 1, 1], None), ([0, 1], Some 3), ([0, 1, 1], Some 3)]"]
  from c [THEN conjunct2, THEN mp, OF conjI, OF none run]
  have final: "annotation [([0, 1, 1], None), ([0, 1], Some 3), ([0, 1, 1], Some 3)] (0 # [1, 1]) = None" .
  have here: "annotation (newlines async_entered) (0 # tl [1, 1]) = Some 3"
    "annotation (newlines async_entered) [0, 1, 1] = None"
    by (simp_all add: async_entered_def annotation_def)
  from a pre here none run final show ?thesis by simp
qed

text \<open>
  Claim C6 at \<open>async_commented\<close>, an \<^verbatim>\<open>async\<close> function definition with one leading
  comment: \<^verbatim>\<open>Visit_funcdef\<close> first calls the placement routine on the node itself, which
  annotates the function keyword, at position \<open>[1, 1, 1]\<close>, with \<open>NO_BLANK_LINES\<close>; it
  then sets the annotation of \<^verbatim>\<open>node.children[0]\<close>, here the comment statement at
  \<open>[0, 1, 1]\<close>, to \<^verbatim>\<open>None\<close>.  So the keyword keeps an annotation of its own to the end of
  the run, beside the one on the \<^verbatim>\<open>async\<close> keyword at \<open>[0, 1]\<close>.
\<close>

theorem C6_async_comment_keyword:
  "AsyncFunction async_commented [1, 1]
   \<and> result_annotation (CalculateBlankLines default_style async_commented []) [1, 1, 1] = Some 1
   \<and> result_annotation (CalculateBlankLines default_style async_commented []) [0, 1, 1] = None
   \<and> result_annotation (CalculateBlankLines default_style async_commented []) [0, 1] = Some 3"
  by (simp add: async_commented_def default_style_def walk_defs)

end
